theory Spec2Isabelle
  imports Complex_Main "HOL-Library.Word" "HOL-Library.Multiset"
begin

section \<open>JavaScript numbers\<close>

text \<open>
  A JavaScript \<open>number\<close> is an IEEE-754 double. It is modelled here as a real number or
  one of the three special values, so that \<open>Number.isFinite\<close>, the propagation of
  \<open>NaN\<close> and the comparisons with \<open>NaN\<close> are those of the language; there is one
  zero (no \<open>-0\<close>). The operations of this section are exact on finite numbers: no
  rounding, no overflow to \<open>Infinity\<close>, no underflow to 0. The section on the arithmetic
  of doubles gives the same operations with the rounding of binary64, and the functions of
  the image matching module over them. A statement about \<open>normalizeVector\<close>,
  \<open>cosineSimilarity\<close>, \<open>getImageEmbedding\<close> or \<open>findSimilarProducts\<close> is a statement
  in exact arithmetic; a statement about \<open>normalizeVector_r\<close>, \<open>cosineSimilarity_r\<close>,
  \<open>getImageEmbedding_r\<close> or \<open>findSimilarProducts_r\<close> is a statement in the arithmetic
  whose rounding it names, that of the program when the rounding is \<open>round64\<close>.
\<close>

datatype jsnum = Fin real | PInf | NInf | NaN

fun isFinite :: "jsnum \<Rightarrow> bool" where
  "isFinite (Fin x) = True"
| "isFinite _ = False"

fun js_neg :: "jsnum \<Rightarrow> jsnum" where
  "js_neg (Fin x) = Fin (- x)"
| "js_neg PInf = NInf"
| "js_neg NInf = PInf"
| "js_neg NaN = NaN"

fun js_add :: "jsnum \<Rightarrow> jsnum \<Rightarrow> jsnum" where
  "js_add NaN _ = NaN"
| "js_add _ NaN = NaN"
| "js_add (Fin x) (Fin y) = Fin (x + y)"
| "js_add PInf NInf = NaN"
| "js_add NInf PInf = NaN"
| "js_add PInf _ = PInf"
| "js_add _ PInf = PInf"
| "js_add NInf _ = NInf"
| "js_add _ NInf = NInf"

definition js_sub :: "jsnum \<Rightarrow> jsnum \<Rightarrow> jsnum" where
  "js_sub a b = js_add a (js_neg b)"

text \<open>The sign of a number that is not \<open>NaN\<close>: \<open>1\<close>, \<open>0\<close> or \<open>-1\<close>.\<close>

fun js_sign :: "jsnum \<Rightarrow> real" where
  "js_sign (Fin x) = sgn x"
| "js_sign PInf = 1"
| "js_sign NInf = - 1"
| "js_sign NaN = 0"

definition signed_inf :: "real \<Rightarrow> jsnum" where
  "signed_inf s = (if s = 0 then NaN else if 0 < s then PInf else NInf)"

fun js_mul :: "jsnum \<Rightarrow> jsnum \<Rightarrow> jsnum" where
  "js_mul NaN _ = NaN"
| "js_mul _ NaN = NaN"
| "js_mul (Fin x) (Fin y) = Fin (x * y)"
| "js_mul a b = signed_inf (js_sign a * js_sign b)"

fun js_div :: "jsnum \<Rightarrow> jsnum \<Rightarrow> jsnum" where
  "js_div NaN _ = NaN"
| "js_div _ NaN = NaN"
| "js_div (Fin x) (Fin y) = (if y = 0 then signed_inf (sgn x) else Fin (x / y))"
| "js_div (Fin x) _ = Fin 0"
| "js_div a (Fin y) = signed_inf (js_sign a * (if y < 0 then - 1 else 1))"
| "js_div _ _ = NaN"

fun Math_sqrt :: "jsnum \<Rightarrow> jsnum" where
  "Math_sqrt (Fin x) = (if x < 0 then NaN else Fin (sqrt x))"
| "Math_sqrt PInf = PInf"
| "Math_sqrt _ = NaN"

text \<open>\<open>a === 0\<close> on numbers: false for \<open>NaN\<close> and the infinities.\<close>

definition is_zero :: "jsnum \<Rightarrow> bool" where
  "is_zero a = (a = Fin 0)"

text \<open>\<open>a > b\<close> on numbers: false as soon as one side is \<open>NaN\<close>.\<close>

fun js_gt :: "jsnum \<Rightarrow> jsnum \<Rightarrow> bool" where
  "js_gt NaN _ = False"
| "js_gt _ NaN = False"
| "js_gt (Fin x) (Fin y) = (y < x)"
| "js_gt PInf b = (b \<noteq> PInf)"
| "js_gt NInf _ = False"
| "js_gt (Fin x) b = (b = NInf)"

definition max2 :: "jsnum \<Rightarrow> jsnum \<Rightarrow> jsnum" where
  "max2 a b = (if a = NaN \<or> b = NaN then NaN else if js_gt b a then b else a)"

definition min2 :: "jsnum \<Rightarrow> jsnum \<Rightarrow> jsnum" where
  "min2 a b = (if a = NaN \<or> b = NaN then NaN else if js_gt a b then b else a)"

text \<open>\<open>Math.max\<close> and \<open>Math.min\<close> take any number of arguments and start from
  \<open>-Infinity\<close> and \<open>Infinity\<close>.\<close>

definition Math_max :: "jsnum list \<Rightarrow> jsnum" where
  "Math_max xs = foldl max2 NInf xs"

definition Math_min :: "jsnum list \<Rightarrow> jsnum" where
  "Math_min xs = foldl min2 PInf xs"

section \<open>Image matching: \<open>@/lib/imageMatching\<close>\<close>

text \<open>The module is the third listing of \<open>src/APPROACH.md\<close> (lines 39 to 150).\<close>

subsection \<open>normalizeVector\<close>

text \<open>
  \<^verbatim>\<open>const magnitude = Math.sqrt(vector.reduce((sum, value) => sum + value * value, 0));\<close>
\<close>

definition magnitude :: "jsnum list \<Rightarrow> jsnum" where
  "magnitude vector = Math_sqrt (foldl (\<lambda>sum value. js_add sum (js_mul value value)) (Fin 0) vector)"

definition normalizeVector :: "jsnum list \<Rightarrow> jsnum list" where
  "normalizeVector vector =
     (let m = magnitude vector in
      if \<not> isFinite m \<or> is_zero m then map (\<lambda>_. Fin 0) vector
      else map (\<lambda>value. js_div value m) vector)"

subsection \<open>cosineSimilarity\<close>

text \<open>Reading \<open>a[i]\<close> past the end gives \<open>undefined\<close>, which is \<open>NaN\<close> in arithmetic.\<close>

definition at_index :: "jsnum list \<Rightarrow> nat \<Rightarrow> jsnum" where
  "at_index a i = (if i < length a then a ! i else NaN)"

text \<open>
  \<^verbatim>\<open>for (let i = 0; i < length; i += 1) {
    dot += a[i] * b[i]; magA += a[i] * a[i]; magB += b[i] * b[i]; }\<close>
  The state of the loop is \<open>(dot, magA, magB)\<close>.
\<close>

function cosine_loop ::
  "jsnum list \<Rightarrow> jsnum list \<Rightarrow> nat \<Rightarrow> nat \<Rightarrow> jsnum \<times> jsnum \<times> jsnum \<Rightarrow> jsnum \<times> jsnum \<times> jsnum" where
  "cosine_loop a b len i (dot, magA, magB) =
     (if i < len then
        cosine_loop a b len (i + 1)
          (js_add dot (js_mul (at_index a i) (at_index b i)),
           js_add magA (js_mul (at_index a i) (at_index a i)),
           js_add magB (js_mul (at_index b i) (at_index b i)))
      else (dot, magA, magB))"
  by pat_completeness auto
termination
  by (relation "measure (\<lambda>(a, b, len, i, acc). len - i)") auto

definition cosineSimilarity :: "jsnum list \<Rightarrow> jsnum list \<Rightarrow> jsnum" where
  "cosineSimilarity a b =
     (let len = min (length a) (length b);
          (dot, magA, magB) = cosine_loop a b len 0 (Fin 0, Fin 0, Fin 0)
      in if is_zero magA \<or> is_zero magB then Fin 0
         else js_div dot (Math_sqrt (js_mul magA magB)))"

subsection \<open>getImageEmbedding\<close>

text \<open>
  What the browser gives the extractor. \<open>canvas.getContext('2d')\<close> returns a context or
  \<open>null\<close>; \<open>drawImage\<close> followed by \<open>getImageData(0, 0, 48, 48)\<close> gives the bytes of a
  \<open>Uint8ClampedArray\<close> (four per pixel: red, green, blue, alpha), or throws when the image
  is broken or the canvas is tainted. An image is modelled by what the canvas reads from
  it.
\<close>

datatype js_error = Error string | DOMException | TypeError | RangeError

type_synonym uint8 = "8 word"

record document =
  getContext_2d :: bool

type_synonym HTMLImageElement = "js_error + uint8 list"

definition CANVAS_SIZE :: jsnum where
  "CANVAS_SIZE = Fin 48"

definition createCanvas :: "document \<Rightarrow> js_error + unit" where
  "createCanvas doc =
     (if \<not> getContext_2d doc then Inl (Error ''Canvas context not available in this browser'')
      else Inr ())"

definition byte_at :: "uint8 list \<Rightarrow> nat \<Rightarrow> jsnum" where
  "byte_at data i = (if i < length data then Fin (real (unat (data ! i))) else NaN)"

record totals =
  redTotal :: jsnum
  greenTotal :: jsnum
  blueTotal :: jsnum
  brightnessTotal :: jsnum
  brightnessSquares :: jsnum
  saturationTotal :: jsnum

function embedding_loop :: "uint8 list \<Rightarrow> nat \<Rightarrow> totals \<Rightarrow> totals" where
  "embedding_loop data i t =
     (if i < length data then
        (let r = byte_at data i;
             g = byte_at data (i + 1);
             b = byte_at data (i + 2);
             mx = Math_max [r, g, b];
             mn = Math_min [r, g, b];
             brightness = js_div (js_add (js_add r g) b) (js_mul (Fin 3) (Fin 255));
             saturation = (if is_zero mx then Fin 0 else js_div (js_sub mx mn) mx)
         in embedding_loop data (i + 4)
              \<lparr>redTotal = js_add (redTotal t) r,
               greenTotal = js_add (greenTotal t) g,
               blueTotal = js_add (blueTotal t) b,
               brightnessTotal = js_add (brightnessTotal t) brightness,
               brightnessSquares = js_add (brightnessSquares t) (js_mul brightness brightness),
               saturationTotal = js_add (saturationTotal t) saturation\<rparr>)
      else t)"
  by pat_completeness auto
termination
  by (relation "measure (\<lambda>(data, i, t). length data - i)") auto

text \<open>The body of \<open>getImageEmbedding\<close> once the bytes are read: the loop, the derived
  statistics and the normalization.\<close>

definition embedding_of_data :: "uint8 list \<Rightarrow> jsnum list" where
  "embedding_of_data data =
     (let pixelCount = js_mul CANVAS_SIZE CANVAS_SIZE;
          t = embedding_loop data 0
                \<lparr>redTotal = Fin 0, greenTotal = Fin 0, blueTotal = Fin 0,
                 brightnessTotal = Fin 0, brightnessSquares = Fin 0, saturationTotal = Fin 0\<rparr>;
          avgBrightness = js_div (brightnessTotal t) pixelCount;
          brightnessVariance =
            js_sub (js_div (brightnessSquares t) pixelCount) (js_mul avgBrightness avgBrightness);
          contrast = Math_sqrt (Math_max [brightnessVariance, Fin 0]);
          avgSaturation = js_div (saturationTotal t) pixelCount
      in normalizeVector
           [js_div (redTotal t) (js_mul pixelCount (Fin 255)),
            js_div (greenTotal t) (js_mul pixelCount (Fin 255)),
            js_div (blueTotal t) (js_mul pixelCount (Fin 255)),
            avgBrightness,
            contrast,
            avgSaturation])"

definition getImageEmbedding :: "document \<Rightarrow> HTMLImageElement \<Rightarrow> js_error + jsnum list" where
  "getImageEmbedding doc img =
     (case createCanvas doc of
        Inl e \<Rightarrow> Inl e
      | Inr ctx \<Rightarrow>
          (case img of
             Inl e \<Rightarrow> Inl e
           | Inr data \<Rightarrow> Inr (embedding_of_data data)))"

subsection \<open>findSimilarProducts\<close>

text \<open>The identifier of a catalog entry is an integer (a \<open>number\<close> in the source).\<close>

record CatalogEmbedding =
  entry_id :: int
  embedding :: "jsnum list"

record SimilarityScore =
  score_id :: int
  similarity :: jsnum

text \<open>
  \<open>Array.prototype.sort\<close> with a comparator is stable and puts \<open>x\<close> after \<open>y\<close> when
  \<open>cmp(x, y) > 0\<close>; it is modelled by the stable insertion sort.
\<close>

fun sort_insert :: "('a \<Rightarrow> 'a \<Rightarrow> jsnum) \<Rightarrow> 'a \<Rightarrow> 'a list \<Rightarrow> 'a list" where
  "sort_insert cmp x [] = [x]"
| "sort_insert cmp x (y # ys) =
     (if js_gt (cmp x y) (Fin 0) then y # sort_insert cmp x ys else x # y # ys)"

definition Array_sort :: "('a \<Rightarrow> 'a \<Rightarrow> jsnum) \<Rightarrow> 'a list \<Rightarrow> 'a list" where
  "Array_sort cmp xs = foldr (sort_insert cmp) xs []"

text \<open>\<open>xs.slice(0, end)\<close> for an integer \<open>end\<close>: a negative \<open>end\<close> counts from the back.\<close>

definition Array_slice0 :: "'a list \<Rightarrow> int \<Rightarrow> 'a list" where
  "Array_slice0 xs e =
     (if e < 0 then take (nat (int (length xs) + e)) xs else take (nat e) xs)"

text \<open>\<^verbatim>\<open>Math.max(0, cosineSimilarity(...) * 100)\<close>\<close>

definition percent_score :: "jsnum \<Rightarrow> jsnum" where
  "percent_score c = Math_max [Fin 0, js_mul c (Fin 100)]"

definition score_entry :: "jsnum list \<Rightarrow> CatalogEmbedding \<Rightarrow> SimilarityScore" where
  "score_entry imageEmbedding entry =
     \<lparr>score_id = entry_id entry,
      similarity =
        percent_score (cosineSimilarity imageEmbedding (normalizeVector (embedding entry)))\<rparr>"

text \<open>\<open>topK\<close> is optional and defaults to 12. The function is \<open>async\<close>: \<open>Inl\<close> is a
  rejected promise.\<close>

definition findSimilarProducts ::
  "document \<Rightarrow> HTMLImageElement \<Rightarrow> CatalogEmbedding list \<Rightarrow> int option
     \<Rightarrow> js_error + SimilarityScore list" where
  "findSimilarProducts doc sourceImage catalogEmbeddings topK =
     (case getImageEmbedding doc sourceImage of
        Inl e \<Rightarrow> Inl e
      | Inr imageEmbedding \<Rightarrow>
          Inr (Array_slice0
                 (Array_sort (\<lambda>a b. js_sub (similarity b) (similarity a))
                    (map (score_entry imageEmbedding) catalogEmbeddings))
                 (case topK of None \<Rightarrow> 12 | Some k \<Rightarrow> k)))"


section \<open>The URL normalizer: \<open>@/lib/normalizeImageUrl\<close>\<close>

text \<open>The module is the second listing of \<open>src/APPROACH.md\<close> (lines 8 to 38).\<close>

text \<open>
  The \<open>URL\<close> class belongs to the platform. A parsed URL is modelled by the parts the
  source reads: \<open>protocol\<close>, \<open>hostname\<close>, \<open>pathname\<close>, and \<open>searchParams\<close> as the
  ordered list of decoded name-value pairs. The parser (\<open>new URL(s)\<close>, \<open>None\<close> when it
  throws), the serializer (\<open>toString()\<close>) and the network (\<open>fetch\<close>) are parameters,
  collected in a record.
\<close>

record URL =
  protocol :: string
  hostname :: string
  pathname :: string
  searchParams :: "(string \<times> string) list"

record upstream_response =
  ok :: bool
  up_status :: nat
  up_body :: "uint8 list option"
  content_type :: "string option"
  content_length :: "string option"

record platform =
  new_URL :: "string \<Rightarrow> URL option"
  toString :: "URL \<Rightarrow> string"
  fetch :: "string \<Rightarrow> js_error + upstream_response"

text \<open>\<open>s.includes(sub)\<close>: \<open>sub\<close> occurs somewhere in \<open>s\<close>.\<close>

fun str_includes :: "string \<Rightarrow> string \<Rightarrow> bool" where
  "str_includes [] sub = (sub = [])"
| "str_includes (c # cs) sub = (take (length sub) (c # cs) = sub \<or> str_includes cs sub)"

text \<open>\<open>URLSearchParams\<close>: \<open>get\<close> returns the first value of a name, \<open>set\<close> replaces the
  first pair of that name and deletes the others, or appends a new pair.\<close>

definition sp_get :: "string \<Rightarrow> (string \<times> string) list \<Rightarrow> string option" where
  "sp_get k ps = map_of ps k"

definition sp_has :: "string \<Rightarrow> (string \<times> string) list \<Rightarrow> bool" where
  "sp_has k ps = (map_of ps k \<noteq> None)"

fun sp_replace :: "string \<Rightarrow> string \<Rightarrow> (string \<times> string) list \<Rightarrow> (string \<times> string) list" where
  "sp_replace k v [] = []"
| "sp_replace k v (p # ps) =
     (if fst p = k then (k, v) # filter (\<lambda>q. fst q \<noteq> k) ps else p # sp_replace k v ps)"

definition sp_set :: "string \<Rightarrow> string \<Rightarrow> (string \<times> string) list \<Rightarrow> (string \<times> string) list" where
  "sp_set k v ps = (if sp_has k ps then sp_replace k v ps else ps @ [(k, v)])"

text \<open>
  The first rule: a Google Images \<open>imgres\<close> wrapper whose \<open>imgurl\<close> parameter is a
  non-empty string.
\<close>

definition wrapped_image_url :: "URL \<Rightarrow> string option" where
  "wrapped_image_url parsed =
     (if str_includes (hostname parsed) ''google.'' \<and> str_includes (pathname parsed) ''/imgres'' then
        (case sp_get ''imgurl'' (searchParams parsed) of
           None \<Rightarrow> None
         | Some actualImageUrl \<Rightarrow> if actualImageUrl \<noteq> [] then Some actualImageUrl else None)
      else None)"

text \<open>
  The second rule and the fall-through. Writing \<open>params.toString()\<close> back into
  \<open>parsed.search\<close> leaves the list of decoded pairs as it is.
\<close>

definition with_cdn_params :: "(string \<times> string) list \<Rightarrow> (string \<times> string) list" where
  "with_cdn_params params =
     (let p1 = (if \<not> sp_has ''auto'' params then sp_set ''auto'' ''format'' params else params);
          p2 = (if \<not> sp_has ''fit'' p1 then sp_set ''fit'' ''crop'' p1 else p1);
          p3 = (if \<not> sp_has ''fm'' p2 then sp_set ''fm'' ''jpg'' p2 else p2)
      in p3)"

definition cdn_or_unchanged :: "platform \<Rightarrow> string \<Rightarrow> URL \<Rightarrow> string" where
  "cdn_or_unchanged env rawUrl parsed =
     (if str_includes (hostname parsed) ''images.unsplash.com'' then
        toString env (parsed\<lparr>searchParams := with_cdn_params (searchParams parsed)\<rparr>)
      else rawUrl)"

text \<open>
  The recursion of the source has no depth bound, so the function is partial:
  \<open>None\<close> means that the call does not return. An input that does not parse is returned
  unchanged (the \<open>catch\<close> branch).
\<close>

partial_function (option) normalizeImageUrl :: "platform \<Rightarrow> string \<Rightarrow> string option" where
  "normalizeImageUrl env rawUrl =
     (case new_URL env rawUrl of
        None \<Rightarrow> Some rawUrl
      | Some parsed \<Rightarrow>
          (case wrapped_image_url parsed of
             Some actualImageUrl \<Rightarrow> normalizeImageUrl env actualImageUrl
           | None \<Rightarrow> Some (cdn_or_unchanged env rawUrl parsed)))"

section \<open>The image proxy: \<open>app/api/image-proxy/route.ts\<close>\<close>

datatype response_body = Json_error string | Stream "uint8 list"

record response =
  status :: nat
  body :: response_body
  headers :: "(string \<times> string) list"

text \<open>
  \<open>NextResponse.json\<close> builds a platform \<open>Response\<close>, whose initialisation throws a
  \<open>RangeError\<close> for a status outside 200..599 and a \<open>TypeError\<close> when a body is given
  together with a null-body status (101, 103, 204, 205, 304).
\<close>

definition NextResponse_json :: "string \<Rightarrow> nat \<Rightarrow> js_error + response" where
  "NextResponse_json message st =
     (if st < 200 \<or> 599 < st then Inl RangeError
      else if st \<in> {204, 205, 304} then Inl TypeError
      else Inr \<lparr>status = st, body = Json_error message, headers = []\<rparr>)"

definition ALLOWED_PROTOCOLS :: "string set" where
  "ALLOWED_PROTOCOLS = {''http:'', ''https:''}"

definition truthy :: "string option \<Rightarrow> bool" where
  "truthy s = (case s of None \<Rightarrow> False | Some v \<Rightarrow> v \<noteq> [])"

definition forwarded_headers :: "upstream_response \<Rightarrow> (string \<times> string) list" where
  "forwarded_headers up =
     (if truthy (content_type up) then [(''Content-Type'', the (content_type up))] else []) @
     (if truthy (content_length up) then [(''Content-Length'', the (content_length up))] else []) @
     [(''Cache-Control'', ''public, max-age=60''), (''Access-Control-Allow-Origin'', ''*'')]"

text \<open>The \<open>try\<close> block of the handler; every exception inside it ends in the \<open>catch\<close>.\<close>

definition proxy_fetch :: "platform \<Rightarrow> URL \<Rightarrow> js_error + response" where
  "proxy_fetch env parsedUrl =
     (let unexpected = NextResponse_json ''Unexpected proxy failure'' 502 in
      case fetch env (toString env parsedUrl) of
        Inl e \<Rightarrow> unexpected
      | Inr upstreamResponse \<Rightarrow>
          if \<not> ok upstreamResponse \<or> up_body upstreamResponse = None then
            (case NextResponse_json ''Failed to fetch remote image''
                    (if up_status upstreamResponse = 0 then 502 else up_status upstreamResponse) of
               Inl e \<Rightarrow> unexpected
             | Inr r \<Rightarrow> Inr r)
          else
            Inr \<lparr>status = 200, body = Stream (the (up_body upstreamResponse)),
                 headers = forwarded_headers upstreamResponse\<rparr>)"

text \<open>
  The handler, given the value of the \<open>url\<close> query parameter of the request (\<open>None\<close>
  when it is absent). The result is the response (or the exception the handler ends with)
  and the list of the URLs that were fetched; \<open>None\<close> when the normalizer does not return.
\<close>

definition GET :: "platform \<Rightarrow> string option \<Rightarrow> ((js_error + response) \<times> string list) option" where
  "GET env target =
     (if \<not> truthy target then
        Some (NextResponse_json ''Missing url query parameter'' 400, [])
      else
        (case normalizeImageUrl env (the target) of
           None \<Rightarrow> None
         | Some normalized \<Rightarrow>
             (case new_URL env normalized of
                None \<Rightarrow> Some (NextResponse_json ''Invalid URL supplied'' 400, [])
              | Some parsedUrl \<Rightarrow>
                  if protocol parsedUrl \<notin> ALLOWED_PROTOCOLS then
                    Some (NextResponse_json ''Only http and https protocols are allowed'' 400, [])
                  else
                    Some (proxy_fetch env parsedUrl, [toString env parsedUrl]))))"

section \<open>The properties, in the words of the specification\<close>

subsection \<open>Numbers and vectors\<close>

definition in_range :: "real \<Rightarrow> real \<Rightarrow> jsnum \<Rightarrow> bool" where
  "in_range lo hi x = (case x of Fin r \<Rightarrow> lo \<le> r \<and> r \<le> hi | _ \<Rightarrow> False)"


definition zero_vector :: "nat \<Rightarrow> jsnum list" where
  "zero_vector n = replicate n (Fin 0)"

text \<open>One step of the two accumulations, named for the proofs.\<close>

definition sq_step :: "jsnum \<Rightarrow> jsnum \<Rightarrow> jsnum" where
  "sq_step acc v = js_add acc (js_mul v v)"

definition dot_step :: "jsnum list \<Rightarrow> jsnum list \<Rightarrow> jsnum \<Rightarrow> nat \<Rightarrow> jsnum" where
  "dot_step a b acc j = js_add acc (js_mul (at_index a j) (at_index b j))"

subsection \<open>The six statistics of a 48 x 48 pixel buffer\<close>

text \<open>
  The buffer holds four bytes per pixel. Pixel \<open>k\<close> is the triple of its red, green and
  blue bytes; the statistics are the means over the \<open>N\<^sup>2\<close> pixels, \<open>N = 48\<close>.
\<close>

definition N :: nat where
  "N = 48"

definition pixel :: "uint8 list \<Rightarrow> nat \<Rightarrow> real \<times> real \<times> real" where
  "pixel data k =
     (real (unat (data ! (4 * k))), real (unat (data ! (4 * k + 1))), real (unat (data ! (4 * k + 2))))"

definition pixels :: "uint8 list \<Rightarrow> (real \<times> real \<times> real) list" where
  "pixels data = map (pixel data) [0..<N * N]"

fun red :: "real \<times> real \<times> real \<Rightarrow> real" where
  "red (r, g, b) = r"

fun green :: "real \<times> real \<times> real \<Rightarrow> real" where
  "green (r, g, b) = g"

fun blue :: "real \<times> real \<times> real \<Rightarrow> real" where
  "blue (r, g, b) = b"

fun brightness :: "real \<times> real \<times> real \<Rightarrow> real" where
  "brightness (r, g, b) = (r + g + b) / (3 * 255)"

fun saturation :: "real \<times> real \<times> real \<Rightarrow> real" where
  "saturation (r, g, b) =
     (if Max {r, g, b} = 0 then 0 else (Max {r, g, b} - Min {r, g, b}) / Max {r, g, b})"

definition mean_r :: "uint8 list \<Rightarrow> real" where
  "mean_r data = (\<Sum>p\<leftarrow>pixels data. red p) / (real (N * N) * 255)"

definition mean_g :: "uint8 list \<Rightarrow> real" where
  "mean_g data = (\<Sum>p\<leftarrow>pixels data. green p) / (real (N * N) * 255)"

definition mean_b :: "uint8 list \<Rightarrow> real" where
  "mean_b data = (\<Sum>p\<leftarrow>pixels data. blue p) / (real (N * N) * 255)"

definition mean_brightness :: "uint8 list \<Rightarrow> real" where
  "mean_brightness data = (\<Sum>p\<leftarrow>pixels data. brightness p) / real (N * N)"

definition brightness_variance :: "uint8 list \<Rightarrow> real" where
  "brightness_variance data =
     (\<Sum>p\<leftarrow>pixels data. (brightness p)\<^sup>2) / real (N * N) - (mean_brightness data)\<^sup>2"

definition contrast :: "uint8 list \<Rightarrow> real" where
  "contrast data = sqrt (max (brightness_variance data) 0)"

definition mean_saturation :: "uint8 list \<Rightarrow> real" where
  "mean_saturation data = (\<Sum>p\<leftarrow>pixels data. saturation p) / real (N * N)"

definition statistics :: "uint8 list \<Rightarrow> jsnum list" where
  "statistics data =
     map Fin [mean_r data, mean_g data, mean_b data, mean_brightness data, contrast data,
              mean_saturation data]"

text \<open>The accumulators of the extractor's loop when all six are finite.\<close>

definition fin_totals :: "real \<Rightarrow> real \<Rightarrow> real \<Rightarrow> real \<Rightarrow> real \<Rightarrow> real \<Rightarrow> totals" where
  "fin_totals R G B Br Sq S =
     \<lparr>redTotal = Fin R, greenTotal = Fin G, blueTotal = Fin B,
      brightnessTotal = Fin Br, brightnessSquares = Fin Sq, saturationTotal = Fin S\<rparr>"

subsection \<open>Ranking\<close>


text \<open>The comparator of the ranker, \<^verbatim>\<open>(a, b) => b.similarity - a.similarity\<close>, and the
  sorted list of all scores before the cut.\<close>

definition by_similarity :: "SimilarityScore \<Rightarrow> SimilarityScore \<Rightarrow> jsnum" where
  "by_similarity a b = js_sub (similarity b) (similarity a)"

definition ranked :: "uint8 list \<Rightarrow> CatalogEmbedding list \<Rightarrow> SimilarityScore list" where
  "ranked data catalog = Array_sort by_similarity (map (score_entry (embedding_of_data data)) catalog)"

definition limit_of :: "int option \<Rightarrow> int" where
  "limit_of topK = (case topK of None \<Rightarrow> 12 | Some k \<Rightarrow> k)"

subsection \<open>The parameters a resizing CDN must carry\<close>

definition cdn_defaults :: "(string \<times> string) list" where
  "cdn_defaults = [(''auto'', ''format''), (''fit'', ''crop''), (''fm'', ''jpg'')]"

definition missing_defaults :: "(string \<times> string) list \<Rightarrow> (string \<times> string) list" where
  "missing_defaults params = filter (\<lambda>(k, v). \<not> sp_has k params) cdn_defaults"

text \<open>\<open>URLSearchParams.getAll\<close>: every value of a name, in order.\<close>

definition sp_getAll :: "string \<Rightarrow> (string \<times> string) list \<Rightarrow> string list" where
  "sp_getAll k ps = map snd (filter (\<lambda>p. fst p = k) ps)"

subsection \<open>Responses of the proxy\<close>

definition json_response :: "nat \<Rightarrow> string \<Rightarrow> response" where
  "json_response st message = \<lparr>status = st, body = Json_error message, headers = []\<rparr>"

text \<open>The status codes with which the platform builds a JSON response.\<close>

definition json_status_ok :: "nat \<Rightarrow> bool" where
  "json_status_ok st = (200 \<le> st \<and> st \<le> 599 \<and> st \<notin> {204, 205, 304})"

section \<open>Concrete inputs\<close>

text \<open>A browser with a canvas, a uniformly white 48 x 48 image, and a catalog of three
  entries with hand-made embeddings.\<close>

definition demo_doc :: document where
  "demo_doc = \<lparr>getContext_2d = True\<rparr>"

definition uniform_image :: "uint8 \<Rightarrow> uint8 \<Rightarrow> uint8 \<Rightarrow> uint8 list" where
  "uniform_image r g b = concat (replicate (N * N) [r, g, b, 255])"

definition white_image :: "uint8 list" where
  "white_image = uniform_image 255 255 255"

definition demo_catalog :: "CatalogEmbedding list" where
  "demo_catalog =
     [\<lparr>entry_id = 1, embedding = map Fin [0, 0, 0, 0, 0, 1]\<rparr>,
      \<lparr>entry_id = 2, embedding = map Fin [3, 4, 0, 0, 0, 0]\<rparr>,
      \<lparr>entry_id = 3, embedding = map Fin [1, 1, 1, 1, 0, 0]\<rparr>]"

text \<open>
  A small platform: a parser that knows six URLs (and rejects every other string), a
  serializer without escaping, and a network in which one host answers 404, the image CDN
  answers with three bytes and nothing else can be reached.
\<close>

definition demo_new_URL :: "string \<Rightarrow> URL option" where
  "demo_new_URL s =
     (if s = ''https://www.google.com/imgres?imgurl=https://images.unsplash.com/photo-1?fit=max'' then
        Some \<lparr>protocol = ''https:'', hostname = ''www.google.com'', pathname = ''/imgres'',
              searchParams = [(''imgurl'', ''https://images.unsplash.com/photo-1?fit=max'')]\<rparr>
      else if s = ''https://images.unsplash.com/photo-1?fit=max'' then
        Some \<lparr>protocol = ''https:'', hostname = ''images.unsplash.com'', pathname = ''/photo-1'',
              searchParams = [(''fit'', ''max'')]\<rparr>
      else if s = ''https://images.unsplash.com/photo-1?fit=max&auto=format&fm=jpg'' then
        Some \<lparr>protocol = ''https:'', hostname = ''images.unsplash.com'', pathname = ''/photo-1'',
              searchParams = [(''fit'', ''max''), (''auto'', ''format''), (''fm'', ''jpg'')]\<rparr>
      else if s = ''http://example.com/missing.png'' then
        Some \<lparr>protocol = ''http:'', hostname = ''example.com'', pathname = ''/missing.png'',
              searchParams = []\<rparr>
      else if s = ''http://unreachable.invalid/x.png'' then
        Some \<lparr>protocol = ''http:'', hostname = ''unreachable.invalid'', pathname = ''/x.png'',
              searchParams = []\<rparr>
      else if s = ''ftp://example.com/a.png'' then
        Some \<lparr>protocol = ''ftp:'', hostname = ''example.com'', pathname = ''/a.png'',
              searchParams = []\<rparr>
      else None)"

fun join_params :: "(string \<times> string) list \<Rightarrow> string" where
  "join_params [] = []"
| "join_params [(k, v)] = k @ ''='' @ v"
| "join_params ((k, v) # ps) = k @ ''='' @ v @ ''&'' @ join_params ps"

definition demo_toString :: "URL \<Rightarrow> string" where
  "demo_toString u =
     protocol u @ ''//'' @ hostname u @ pathname u @
     (if searchParams u = [] then [] else ''?'' @ join_params (searchParams u))"

definition demo_fetch :: "string \<Rightarrow> js_error + upstream_response" where
  "demo_fetch url =
     (if url = ''http://example.com/missing.png'' then
        Inr \<lparr>ok = False, up_status = 404, up_body = Some [], content_type = Some ''text/html'',
             content_length = None\<rparr>
      else if url = ''https://images.unsplash.com/photo-1?fit=max&auto=format&fm=jpg'' then
        Inr \<lparr>ok = True, up_status = 200, up_body = Some [1, 2, 3],
             content_type = Some ''image/jpeg'', content_length = Some ''3''\<rparr>
      else Inl TypeError)"

definition demo_platform :: platform where
  "demo_platform = \<lparr>new_URL = demo_new_URL, toString = demo_toString, fetch = demo_fetch\<rparr>"

section \<open>The arithmetic of doubles\<close>

text \<open>
  The functions of the image matching module were given above in exact arithmetic. Here
  they are given again with the rounding of the arithmetic as a parameter: every
  addition, multiplication, division and square root of finite numbers first takes the
  exact result and then applies \<open>rnd\<close> to it. With \<open>rnd = Fin\<close> nothing is rounded and
  the functions are those above; with \<open>rnd = round64\<close> they compute what the program
  computes, in IEEE-754 binary64 with rounding to nearest, ties to even.
\<close>

subsection \<open>Rounding to binary64\<close>

text \<open>The nearest integer, the even one of the two when \<open>r\<close> lies half-way.\<close>

definition round_even :: "real \<Rightarrow> int" where
  "round_even r =
     (let f = \<lfloor>r\<rfloor>; d = r - of_int f
      in if d < 1 / 2 then f else if 1 / 2 < d then f + 1 else if even f then f else f + 1)"

text \<open>
  The exponent of the binade of \<open>x\<close>, not below that of the subnormal numbers. The
  doubles of that binade are the multiples of \<open>2\<^sup>e\<^sup>-\<^sup>5\<^sup>2\<close>.
\<close>

definition binade :: "real \<Rightarrow> int" where
  "binade x = max \<lfloor>log 2 \<bar>x\<bar>\<rfloor> (- 1022)"

text \<open>
  The double nearest to a real number: the nearest multiple of the spacing of its
  binade, and an infinity when that multiple is \<open>2\<^sup>1\<^sup>0\<^sup>2\<^sup>4\<close> or more.
\<close>

definition round64 :: "real \<Rightarrow> jsnum" where
  "round64 x =
     (if x = 0 then Fin 0
      else
        (let q = 2 powr of_int (binade x - 52);
             m = round_even (\<bar>x\<bar> / q)
         in if 2 ^ 1024 \<le> of_int m * q then signed_inf (sgn x)
            else Fin (sgn x * (of_int m * q))))"

subsection \<open>The operations, rounded by \<open>rnd\<close>\<close>

fun r_add :: "(real \<Rightarrow> jsnum) \<Rightarrow> jsnum \<Rightarrow> jsnum \<Rightarrow> jsnum" where
  "r_add rnd NaN _ = NaN"
| "r_add rnd _ NaN = NaN"
| "r_add rnd (Fin x) (Fin y) = rnd (x + y)"
| "r_add rnd PInf NInf = NaN"
| "r_add rnd NInf PInf = NaN"
| "r_add rnd PInf _ = PInf"
| "r_add rnd _ PInf = PInf"
| "r_add rnd NInf _ = NInf"
| "r_add rnd _ NInf = NInf"

definition r_sub :: "(real \<Rightarrow> jsnum) \<Rightarrow> jsnum \<Rightarrow> jsnum \<Rightarrow> jsnum" where
  "r_sub rnd a b = r_add rnd a (js_neg b)"

fun r_mul :: "(real \<Rightarrow> jsnum) \<Rightarrow> jsnum \<Rightarrow> jsnum \<Rightarrow> jsnum" where
  "r_mul rnd NaN _ = NaN"
| "r_mul rnd _ NaN = NaN"
| "r_mul rnd (Fin x) (Fin y) = rnd (x * y)"
| "r_mul rnd a b = signed_inf (js_sign a * js_sign b)"

fun r_div :: "(real \<Rightarrow> jsnum) \<Rightarrow> jsnum \<Rightarrow> jsnum \<Rightarrow> jsnum" where
  "r_div rnd NaN _ = NaN"
| "r_div rnd _ NaN = NaN"
| "r_div rnd (Fin x) (Fin y) = (if y = 0 then signed_inf (sgn x) else rnd (x / y))"
| "r_div rnd (Fin x) _ = Fin 0"
| "r_div rnd a (Fin y) = signed_inf (js_sign a * (if y < 0 then - 1 else 1))"
| "r_div rnd _ _ = NaN"

fun r_sqrt :: "(real \<Rightarrow> jsnum) \<Rightarrow> jsnum \<Rightarrow> jsnum" where
  "r_sqrt rnd (Fin x) = (if x < 0 then NaN else rnd (sqrt x))"
| "r_sqrt rnd PInf = PInf"
| "r_sqrt rnd _ = NaN"

subsection \<open>The module, with rounded operations\<close>

definition magnitude_r :: "(real \<Rightarrow> jsnum) \<Rightarrow> jsnum list \<Rightarrow> jsnum" where
  "magnitude_r rnd vector =
     r_sqrt rnd (foldl (\<lambda>sum value. r_add rnd sum (r_mul rnd value value)) (Fin 0) vector)"

definition normalizeVector_r :: "(real \<Rightarrow> jsnum) \<Rightarrow> jsnum list \<Rightarrow> jsnum list" where
  "normalizeVector_r rnd vector =
     (let m = magnitude_r rnd vector in
      if \<not> isFinite m \<or> is_zero m then map (\<lambda>_. Fin 0) vector
      else map (\<lambda>value. r_div rnd value m) vector)"

function cosine_loop_r ::
  "(real \<Rightarrow> jsnum) \<Rightarrow> jsnum list \<Rightarrow> jsnum list \<Rightarrow> nat \<Rightarrow> nat \<Rightarrow> jsnum \<times> jsnum \<times> jsnum
     \<Rightarrow> jsnum \<times> jsnum \<times> jsnum" where
  "cosine_loop_r rnd a b len i (dot, magA, magB) =
     (if i < len then
        cosine_loop_r rnd a b len (i + 1)
          (r_add rnd dot (r_mul rnd (at_index a i) (at_index b i)),
           r_add rnd magA (r_mul rnd (at_index a i) (at_index a i)),
           r_add rnd magB (r_mul rnd (at_index b i) (at_index b i)))
      else (dot, magA, magB))"
  by pat_completeness auto
termination
  by (relation "measure (\<lambda>(rnd, a, b, len, i, acc). len - i)") auto

definition cosineSimilarity_r :: "(real \<Rightarrow> jsnum) \<Rightarrow> jsnum list \<Rightarrow> jsnum list \<Rightarrow> jsnum" where
  "cosineSimilarity_r rnd a b =
     (let len = min (length a) (length b);
          (dot, magA, magB) = cosine_loop_r rnd a b len 0 (Fin 0, Fin 0, Fin 0)
      in if is_zero magA \<or> is_zero magB then Fin 0
         else r_div rnd dot (r_sqrt rnd (r_mul rnd magA magB)))"

function embedding_loop_r :: "(real \<Rightarrow> jsnum) \<Rightarrow> uint8 list \<Rightarrow> nat \<Rightarrow> totals \<Rightarrow> totals" where
  "embedding_loop_r rnd data i t =
     (if i < length data then
        (let r = byte_at data i;
             g = byte_at data (i + 1);
             b = byte_at data (i + 2);
             mx = Math_max [r, g, b];
             mn = Math_min [r, g, b];
             brightness = r_div rnd (r_add rnd (r_add rnd r g) b) (r_mul rnd (Fin 3) (Fin 255));
             saturation = (if is_zero mx then Fin 0 else r_div rnd (r_sub rnd mx mn) mx)
         in embedding_loop_r rnd data (i + 4)
              \<lparr>redTotal = r_add rnd (redTotal t) r,
               greenTotal = r_add rnd (greenTotal t) g,
               blueTotal = r_add rnd (blueTotal t) b,
               brightnessTotal = r_add rnd (brightnessTotal t) brightness,
               brightnessSquares =
                 r_add rnd (brightnessSquares t) (r_mul rnd brightness brightness),
               saturationTotal = r_add rnd (saturationTotal t) saturation\<rparr>)
      else t)"
  by pat_completeness auto
termination
  by (relation "measure (\<lambda>(rnd, data, i, t). length data - i)") auto

definition embedding_of_data_r :: "(real \<Rightarrow> jsnum) \<Rightarrow> uint8 list \<Rightarrow> jsnum list" where
  "embedding_of_data_r rnd data =
     (let pixelCount = r_mul rnd CANVAS_SIZE CANVAS_SIZE;
          t = embedding_loop_r rnd data 0
                \<lparr>redTotal = Fin 0, greenTotal = Fin 0, blueTotal = Fin 0,
                 brightnessTotal = Fin 0, brightnessSquares = Fin 0, saturationTotal = Fin 0\<rparr>;
          avgBrightness = r_div rnd (brightnessTotal t) pixelCount;
          brightnessVariance =
            r_sub rnd (r_div rnd (brightnessSquares t) pixelCount)
              (r_mul rnd avgBrightness avgBrightness);
          contrast = r_sqrt rnd (Math_max [brightnessVariance, Fin 0]);
          avgSaturation = r_div rnd (saturationTotal t) pixelCount
      in normalizeVector_r rnd
           [r_div rnd (redTotal t) (r_mul rnd pixelCount (Fin 255)),
            r_div rnd (greenTotal t) (r_mul rnd pixelCount (Fin 255)),
            r_div rnd (blueTotal t) (r_mul rnd pixelCount (Fin 255)),
            avgBrightness,
            contrast,
            avgSaturation])"

definition getImageEmbedding_r ::
  "(real \<Rightarrow> jsnum) \<Rightarrow> document \<Rightarrow> HTMLImageElement \<Rightarrow> js_error + jsnum list" where
  "getImageEmbedding_r rnd doc img =
     (case createCanvas doc of
        Inl e \<Rightarrow> Inl e
      | Inr ctx \<Rightarrow>
          (case img of
             Inl e \<Rightarrow> Inl e
           | Inr data \<Rightarrow> Inr (embedding_of_data_r rnd data)))"

definition percent_score_r :: "(real \<Rightarrow> jsnum) \<Rightarrow> jsnum \<Rightarrow> jsnum" where
  "percent_score_r rnd c = Math_max [Fin 0, r_mul rnd c (Fin 100)]"

definition score_entry_r ::
  "(real \<Rightarrow> jsnum) \<Rightarrow> jsnum list \<Rightarrow> CatalogEmbedding \<Rightarrow> SimilarityScore" where
  "score_entry_r rnd imageEmbedding entry =
     \<lparr>score_id = entry_id entry,
      similarity =
        percent_score_r rnd
          (cosineSimilarity_r rnd imageEmbedding (normalizeVector_r rnd (embedding entry)))\<rparr>"

definition findSimilarProducts_r ::
  "(real \<Rightarrow> jsnum) \<Rightarrow> document \<Rightarrow> HTMLImageElement \<Rightarrow> CatalogEmbedding list \<Rightarrow> int option
     \<Rightarrow> js_error + SimilarityScore list" where
  "findSimilarProducts_r rnd doc sourceImage catalogEmbeddings topK =
     (case getImageEmbedding_r rnd doc sourceImage of
        Inl e \<Rightarrow> Inl e
      | Inr imageEmbedding \<Rightarrow>
          Inr (Array_slice0
                 (Array_sort (\<lambda>a b. r_sub rnd (similarity b) (similarity a))
                    (map (score_entry_r rnd imageEmbedding) catalogEmbeddings))
                 (case topK of None \<Rightarrow> 12 | Some k \<Rightarrow> k)))"

subsection \<open>The properties again, with rounded operations\<close>


definition sq_step_r :: "(real \<Rightarrow> jsnum) \<Rightarrow> jsnum \<Rightarrow> jsnum \<Rightarrow> jsnum" where
  "sq_step_r rnd acc v = r_add rnd acc (r_mul rnd v v)"

definition dot_step_r :: "(real \<Rightarrow> jsnum) \<Rightarrow> jsnum list \<Rightarrow> jsnum list \<Rightarrow> jsnum \<Rightarrow> nat \<Rightarrow> jsnum" where
  "dot_step_r rnd a b acc j = r_add rnd acc (r_mul rnd (at_index a j) (at_index b j))"

text \<open>
  The pixels of the buffer as triples of numbers, a sum accumulated from left to right,
  and the six statistics: every operation is rounded, in the order in which the formulas
  are written.
\<close>

definition px :: "uint8 list \<Rightarrow> (jsnum \<times> jsnum \<times> jsnum) list" where
  "px data = map (\<lambda>(r, g, b). (Fin r, Fin g, Fin b)) (pixels data)"

definition total :: "(real \<Rightarrow> jsnum) \<Rightarrow> jsnum list \<Rightarrow> jsnum" where
  "total rnd xs = foldl (r_add rnd) (Fin 0) xs"

fun red_of :: "jsnum \<times> jsnum \<times> jsnum \<Rightarrow> jsnum" where
  "red_of (r, g, b) = r"

fun green_of :: "jsnum \<times> jsnum \<times> jsnum \<Rightarrow> jsnum" where
  "green_of (r, g, b) = g"

fun blue_of :: "jsnum \<times> jsnum \<times> jsnum \<Rightarrow> jsnum" where
  "blue_of (r, g, b) = b"

fun brightness_r :: "(real \<Rightarrow> jsnum) \<Rightarrow> jsnum \<times> jsnum \<times> jsnum \<Rightarrow> jsnum" where
  "brightness_r rnd (r, g, b) =
     r_div rnd (r_add rnd (r_add rnd r g) b) (r_mul rnd (Fin 3) (Fin 255))"

fun saturation_r :: "(real \<Rightarrow> jsnum) \<Rightarrow> jsnum \<times> jsnum \<times> jsnum \<Rightarrow> jsnum" where
  "saturation_r rnd (r, g, b) =
     (if is_zero (Math_max [r, g, b]) then Fin 0
      else r_div rnd (r_sub rnd (Math_max [r, g, b]) (Math_min [r, g, b])) (Math_max [r, g, b]))"

definition pixel_count :: "(real \<Rightarrow> jsnum) \<Rightarrow> jsnum" where
  "pixel_count rnd = r_mul rnd (Fin (real N)) (Fin (real N))"

definition mean_red :: "(real \<Rightarrow> jsnum) \<Rightarrow> uint8 list \<Rightarrow> jsnum" where
  "mean_red rnd data =
     r_div rnd (total rnd (map red_of (px data))) (r_mul rnd (pixel_count rnd) (Fin 255))"

definition mean_green :: "(real \<Rightarrow> jsnum) \<Rightarrow> uint8 list \<Rightarrow> jsnum" where
  "mean_green rnd data =
     r_div rnd (total rnd (map green_of (px data))) (r_mul rnd (pixel_count rnd) (Fin 255))"

definition mean_blue :: "(real \<Rightarrow> jsnum) \<Rightarrow> uint8 list \<Rightarrow> jsnum" where
  "mean_blue rnd data =
     r_div rnd (total rnd (map blue_of (px data))) (r_mul rnd (pixel_count rnd) (Fin 255))"

definition mean_bright :: "(real \<Rightarrow> jsnum) \<Rightarrow> uint8 list \<Rightarrow> jsnum" where
  "mean_bright rnd data =
     r_div rnd (total rnd (map (brightness_r rnd) (px data))) (pixel_count rnd)"

definition variance_bright :: "(real \<Rightarrow> jsnum) \<Rightarrow> uint8 list \<Rightarrow> jsnum" where
  "variance_bright rnd data =
     r_sub rnd
       (r_div rnd
          (total rnd (map (\<lambda>p. r_mul rnd (brightness_r rnd p) (brightness_r rnd p)) (px data)))
          (pixel_count rnd))
       (r_mul rnd (mean_bright rnd data) (mean_bright rnd data))"

definition contrast_r :: "(real \<Rightarrow> jsnum) \<Rightarrow> uint8 list \<Rightarrow> jsnum" where
  "contrast_r rnd data = r_sqrt rnd (Math_max [variance_bright rnd data, Fin 0])"

definition mean_sat :: "(real \<Rightarrow> jsnum) \<Rightarrow> uint8 list \<Rightarrow> jsnum" where
  "mean_sat rnd data =
     r_div rnd (total rnd (map (saturation_r rnd) (px data))) (pixel_count rnd)"

definition statistics_r :: "(real \<Rightarrow> jsnum) \<Rightarrow> uint8 list \<Rightarrow> jsnum list" where
  "statistics_r rnd data =
     [mean_red rnd data, mean_green rnd data, mean_blue rnd data, mean_bright rnd data,
      contrast_r rnd data, mean_sat rnd data]"

text \<open>One pixel added to the accumulators of the extractor's loop.\<close>

definition pixel_step :: "(real \<Rightarrow> jsnum) \<Rightarrow> totals \<Rightarrow> jsnum \<times> jsnum \<times> jsnum \<Rightarrow> totals" where
  "pixel_step rnd t p =
     \<lparr>redTotal = r_add rnd (redTotal t) (red_of p),
      greenTotal = r_add rnd (greenTotal t) (green_of p),
      blueTotal = r_add rnd (blueTotal t) (blue_of p),
      brightnessTotal = r_add rnd (brightnessTotal t) (brightness_r rnd p),
      brightnessSquares =
        r_add rnd (brightnessSquares t) (r_mul rnd (brightness_r rnd p) (brightness_r rnd p)),
      saturationTotal = r_add rnd (saturationTotal t) (saturation_r rnd p)\<rparr>"

text \<open>A score that is not below 0: \<open>score < 0\<close> is false.\<close>

definition not_negative :: "jsnum \<Rightarrow> bool" where
  "not_negative x = (\<not> js_gt (Fin 0) x)"

subsection \<open>Concrete inputs for the arithmetic of doubles\<close>

text \<open>
  A 48 x 48 image that is black but for its first two pixels, which are white, and a
  catalog whose one entry stores the embedding of that image.
\<close>

definition speck_image :: "uint8 list" where
  "speck_image =
     concat (map (\<lambda>k. if k < 2 then [255, 255, 255, 255] else [0, 0, 0, 255]) [0..<N * N])"

definition speck_embedding :: "jsnum list" where
  "speck_embedding =
     [Fin (8481033065012369 / 288230376151711744), Fin (8481033065012369 / 288230376151711744),
      Fin (8481033065012369 / 288230376151711744), Fin (8481033065012369 / 288230376151711744),
      Fin (4495794422843441 / 4503599627370496), Fin 0]"

definition speck_catalog :: "CatalogEmbedding list" where
  "speck_catalog = [\<lparr>entry_id = 1, embedding = speck_embedding\<rparr>]"

text \<open>A number whose square is beyond the largest double.\<close>

definition huge :: real where
  "huge = 2 ^ 600"
section \<open>The normalizer returns a unit vector or the zero vector\<close>

lemma magnitude_sq_step: "magnitude v = Math_sqrt (foldl sq_step (Fin 0) v)"
  unfolding magnitude_def sq_step_def ..


lemma sq_step_Fin: "sq_step (Fin s) (Fin x) = Fin (s + x * x)"
  by (simp add: sq_step_def)

lemma foldl_sq_step_Fin:
  "foldl sq_step (Fin s) (map Fin rv) = Fin (s + (\<Sum>x\<leftarrow>rv. x * x))"
  by (induction rv arbitrary: s) (simp_all add: sq_step_Fin add.assoc)

lemma sq_step_not_finite:
  "\<not> isFinite acc \<Longrightarrow> acc \<noteq> NInf \<Longrightarrow> \<not> isFinite (sq_step acc x) \<and> sq_step acc x \<noteq> NInf"
  by (cases acc; cases x) (simp_all add: sq_step_def signed_inf_def)

lemma sq_step_Fin_not_finite:
  "\<not> isFinite x \<Longrightarrow> \<not> isFinite (sq_step (Fin s) x) \<and> sq_step (Fin s) x \<noteq> NInf"
  by (cases x) (simp_all add: sq_step_def signed_inf_def)

lemma foldl_sq_step_not_finite:
  "\<not> isFinite acc \<Longrightarrow> acc \<noteq> NInf \<Longrightarrow>
     \<not> isFinite (foldl sq_step acc v) \<and> foldl sq_step acc v \<noteq> NInf"
  by (induction v arbitrary: acc) (simp_all add: sq_step_not_finite)

lemma foldl_sq_step_finite_elems:
  "isFinite (foldl sq_step (Fin s) v) \<Longrightarrow> \<exists>rv. v = map Fin rv"
proof (induction v arbitrary: s)
  case Nil
  then show ?case by simp
next
  case (Cons x v)
  show ?case
  proof (cases x)
    case (Fin r)
    with Cons.prems have "isFinite (foldl sq_step (Fin (s + r * r)) v)"
      by (simp add: sq_step_Fin)
    then obtain rv where "v = map Fin rv" using Cons.IH by blast
    with Fin have "x # v = map Fin (r # rv)" by simp
    then show ?thesis by (rule exI)
  next
    case PInf
    then have "\<not> isFinite x" by simp
    from sq_step_Fin_not_finite [OF this, of s] foldl_sq_step_not_finite Cons.prems
    show ?thesis by auto
  next
    case NInf
    then have "\<not> isFinite x" by simp
    from sq_step_Fin_not_finite [OF this, of s] foldl_sq_step_not_finite Cons.prems
    show ?thesis by auto
  next
    case NaN
    then have "\<not> isFinite x" by simp
    from sq_step_Fin_not_finite [OF this, of s] foldl_sq_step_not_finite Cons.prems
    show ?thesis by auto
  qed
qed

lemma sum_list_sq_nonneg: "0 \<le> (\<Sum>x\<leftarrow>rv. x * x :: real)"
  by (induction rv) simp_all

lemma magnitude_Fin: "magnitude (map Fin rv) = Fin (sqrt (\<Sum>x\<leftarrow>rv. x * x))"
  using sum_list_sq_nonneg [of rv]
  by (simp add: magnitude_sq_step foldl_sq_step_Fin not_less)

lemma magnitude_finite_elems: "isFinite (magnitude v) \<Longrightarrow> \<exists>rv. v = map Fin rv"
proof -
  assume a: "isFinite (magnitude v)"
  have "isFinite (foldl sq_step (Fin 0) v)"
  proof (cases "foldl sq_step (Fin 0) v")
    case (Fin r) then show ?thesis by simp
  next
    case PInf with a show ?thesis by (simp add: magnitude_sq_step)
  next
    case NInf with a show ?thesis by (simp add: magnitude_sq_step)
  next
    case NaN with a show ?thesis by (simp add: magnitude_sq_step)
  qed
  then show ?thesis by (rule foldl_sq_step_finite_elems)
qed

lemma normalizeVector_length: "length (normalizeVector v) = length v"
  by (simp add: normalizeVector_def Let_def)

lemma normalizeVector_degenerate:
  "\<not> isFinite (magnitude v) \<or> is_zero (magnitude v) \<Longrightarrow>
     normalizeVector v = replicate (length v) (Fin 0)"
  by (auto simp: normalizeVector_def Let_def map_replicate_const)

lemma normalizeVector_regular:
  assumes "(\<Sum>x\<leftarrow>rv. x * x) \<noteq> 0"
  shows "normalizeVector (map Fin rv) = map (\<lambda>x. Fin (x / sqrt (\<Sum>x\<leftarrow>rv. x * x))) rv"
  using assms by (simp add: normalizeVector_def magnitude_Fin is_zero_def)

lemma sum_list_sq_div:
  "(\<Sum>x\<leftarrow>map (\<lambda>x. x / m) rv. x * x) = (\<Sum>x\<leftarrow>rv. x * x) / (m * m :: real)"
  by (induction rv) (simp_all add: add_divide_distrib o_def)

lemma sum_list_sq_normalized:
  assumes "(\<Sum>x\<leftarrow>rv. x * x) \<noteq> 0"
  shows "(\<Sum>x\<leftarrow>map (\<lambda>x. x / sqrt (\<Sum>x\<leftarrow>rv. x * x)) rv. x * x) = (1::real)"
proof -
  have "0 \<le> (\<Sum>x\<leftarrow>rv. x * x)" by (rule sum_list_sq_nonneg)
  then have "sqrt (\<Sum>x\<leftarrow>rv. x * x) * sqrt (\<Sum>x\<leftarrow>rv. x * x) = (\<Sum>x\<leftarrow>rv. x * x)"
    by simp
  with assms show ?thesis by (simp only: sum_list_sq_div) simp
qed

lemma normalizeVector_cases:
  "(\<exists>rv. v = map Fin rv \<and> (\<Sum>x\<leftarrow>rv. x * x) \<noteq> 0 \<and> isFinite (magnitude v) \<and> \<not> is_zero (magnitude v)
       \<and> normalizeVector v = map Fin (map (\<lambda>x. x / sqrt (\<Sum>x\<leftarrow>rv. x * x)) rv))
   \<or> ((\<not> isFinite (magnitude v) \<or> is_zero (magnitude v)) \<and> normalizeVector v = replicate (length v) (Fin 0))"
proof (cases "\<not> isFinite (magnitude v) \<or> is_zero (magnitude v)")
  case True
  then show ?thesis using normalizeVector_degenerate by blast
next
  case False
  then obtain rv where rv: "v = map Fin rv" using magnitude_finite_elems by blast
  with False have "(\<Sum>x\<leftarrow>rv. x * x) \<noteq> 0" by (auto simp: magnitude_Fin is_zero_def)
  with rv False normalizeVector_regular [OF this] show ?thesis by (auto simp: o_def)
qed

lemma magnitude_zeros: "magnitude (replicate n (Fin 0)) = Fin 0"
proof -
  have "replicate n (Fin 0) = map Fin (replicate n 0)" by simp
  then have "magnitude (replicate n (Fin 0)) = Fin (sqrt (\<Sum>x\<leftarrow>replicate n (0::real). x * x))"
    by (simp only: magnitude_Fin)
  moreover have "(\<Sum>x\<leftarrow>replicate n (0::real). x * x) = 0" by (induction n) simp_all
  ultimately show ?thesis by simp
qed


section \<open>The cosine similarity as sums, and its bounds\<close>

lemma cosine_loop_foldl:
  "cosine_loop a b len i (d, ma, mb) =
     (foldl (dot_step a b) d [i..<len], foldl (dot_step a a) ma [i..<len], foldl (dot_step b b) mb [i..<len])"
proof (induction a b len i "(d, ma, mb)" arbitrary: d ma mb rule: cosine_loop.induct)
  case (1 a b len i d ma mb)
  show ?case
  proof (cases "i < len")
    case True
    then have u: "[i..<len] = i # [Suc i..<len]" by (simp add: upt_conv_Cons)
    from True "1.hyps" [OF True] show ?thesis
      by (simp add: u dot_step_def)
  next
    case False
    then show ?thesis by simp
  qed
qed

lemma map_at_index: "n \<le> length a \<Longrightarrow> map (at_index a) [0..<n] = take n a"
  by (rule nth_equalityI) (simp_all add: at_index_def)

lemma foldl_dot_step_self:
  "foldl (dot_step a a) acc js = foldl sq_step acc (map (at_index a) js)"
  by (induction js arbitrary: acc) (simp_all add: dot_step_def sq_step_def)

lemma foldl_dot_step_zip:
  "foldl (dot_step a b) acc js =
     foldl js_add acc (map (\<lambda>(x, y). js_mul x y) (zip (map (at_index a) js) (map (at_index b) js)))"
  by (induction js arbitrary: acc) (simp_all add: dot_step_def)

lemma zip_take_min: "zip (take (min (length a) (length b)) a) (take (min (length a) (length b)) b) = zip a b"
  by (simp add: take_zip [symmetric])

lemma cosineSimilarity_alt:
  "cosineSimilarity a b =
     (let n = min (length a) (length b);
          dot = foldl js_add (Fin 0) (map (\<lambda>(x, y). js_mul x y) (zip a b));
          magA = foldl sq_step (Fin 0) (take n a);
          magB = foldl sq_step (Fin 0) (take n b)
      in if is_zero magA \<or> is_zero magB then Fin 0
         else js_div dot (Math_sqrt (js_mul magA magB)))"
proof -
  let ?n = "min (length a) (length b)"
  have a: "map (at_index a) [0..<?n] = take ?n a" by (rule map_at_index) simp
  have b: "map (at_index b) [0..<?n] = take ?n b" by (rule map_at_index) simp
  show ?thesis
    unfolding cosineSimilarity_def cosine_loop_foldl Let_def prod.case
      foldl_dot_step_self foldl_dot_step_zip a b zip_take_min ..
qed

lemma foldl_js_add_Fin: "foldl js_add (Fin s) (map Fin xs) = Fin (s + sum_list xs)"
  by (induction xs arbitrary: s) (simp_all add: add.assoc)

lemma dot_Fin:
  "foldl js_add (Fin 0) (map (\<lambda>(x, y). js_mul x y) (zip (map Fin ra) (map Fin rb)))
     = Fin (\<Sum>(x, y)\<leftarrow>zip ra rb. x * y)"
proof -
  have "map (\<lambda>(x, y). js_mul x y) (zip (map Fin ra) (map Fin rb)) = map Fin (map (\<lambda>(x, y). x * y) (zip ra rb))"
    by (simp add: zip_map_map o_def split_def)
  then show ?thesis by (simp only: foldl_js_add_Fin) simp
qed

lemma two_term_bound:
  fixes p q d A B :: real
  assumes "d * d \<le> A * B" "0 \<le> A" "0 \<le> B"
  shows "2 * (p * q * d) \<le> p * p * B + q * q * A"
proof -
  have nn: "0 \<le> p * p * B + q * q * A" using assms by simp
  have "(2 * (p * q * d))\<^sup>2 = 4 * (p * p * (q * q)) * (d * d)"
    by (simp add: power2_eq_square algebra_simps)
  also have "\<dots> \<le> 4 * (p * p * (q * q)) * (A * B)"
    using assms(1) by (intro mult_left_mono) simp_all
  also have "\<dots> \<le> (p * p * B + q * q * A)\<^sup>2"
  proof -
    have "0 \<le> (p * p * B - q * q * A)\<^sup>2" by simp
    also have "(p * p * B - q * q * A)\<^sup>2 = (p * p * B + q * q * A)\<^sup>2 - 4 * (p * p * (q * q)) * (A * B)"
      by (simp add: power2_eq_square algebra_simps)
    finally show ?thesis by simp
  qed
  finally have "(2 * (p * q * d))\<^sup>2 \<le> (p * p * B + q * q * A)\<^sup>2" .
  from power2_le_imp_le [OF this nn] show ?thesis .
qed

lemma zip_sq_nonneg_l: "0 \<le> (\<Sum>(x, y)\<leftarrow>zs. x * x :: real)"
  by (induction zs) (simp_all add: split_def)

lemma zip_sq_nonneg_r: "0 \<le> (\<Sum>(x, y)\<leftarrow>zs. y * y :: real)"
  by (induction zs) (simp_all add: split_def)

lemma Cauchy_Schwarz_list:
  "(\<Sum>(x, y)\<leftarrow>zs. x * y) * (\<Sum>(x, y)\<leftarrow>zs. x * y)
     \<le> (\<Sum>(x, y)\<leftarrow>zs. x * x) * (\<Sum>(x, y)\<leftarrow>zs. y * y :: real)"
proof (induction zs)
  case Nil
  then show ?case by simp
next
  case (Cons z zs)
  obtain p q where z: "z = (p, q)" by (cases z)
  let ?d = "\<Sum>(x, y)\<leftarrow>zs. x * y" and ?A = "\<Sum>(x, y)\<leftarrow>zs. x * x" and ?B = "\<Sum>(x, y)\<leftarrow>zs. y * y"
  have "2 * (p * q * ?d) \<le> p * p * ?B + q * q * ?A"
    by (rule two_term_bound [OF Cons.IH zip_sq_nonneg_l zip_sq_nonneg_r])
  moreover have "(p * q + ?d) * (p * q + ?d) = p * p * (q * q) + 2 * (p * q * ?d) + ?d * ?d"
    by (simp add: algebra_simps)
  moreover have "(p * p + ?A) * (q * q + ?B) = p * p * (q * q) + (p * p * ?B + q * q * ?A) + ?A * ?B"
    by (simp add: algebra_simps)
  ultimately have "(p * q + ?d) * (p * q + ?d) \<le> (p * p + ?A) * (q * q + ?B)"
    using Cons.IH by linarith
  then show ?case by (simp add: z)
qed

lemma sum_zip_fst: "length ra = length rb \<Longrightarrow> (\<Sum>(x, y)\<leftarrow>zip ra rb. x * x) = (\<Sum>x\<leftarrow>ra. x * x :: real)"
proof -
  assume l: "length ra = length rb"
  have "map (\<lambda>(x, y). x * x) (zip ra rb) = map (\<lambda>x. x * x) (map fst (zip ra rb))"
    by (simp add: o_def split_def)
  also have "map fst (zip ra rb) = ra" using l by simp
  finally show ?thesis by simp
qed

lemma sum_zip_snd: "length ra = length rb \<Longrightarrow> (\<Sum>(x, y)\<leftarrow>zip ra rb. y * y) = (\<Sum>y\<leftarrow>rb. y * y :: real)"
proof -
  assume l: "length ra = length rb"
  have "map (\<lambda>(x, y). y * y) (zip ra rb) = map (\<lambda>x. x * x) (map snd (zip ra rb))"
    by (simp add: o_def split_def)
  also have "map snd (zip ra rb) = rb" using l by simp
  finally show ?thesis by simp
qed

lemma cosineSimilarity_Fin:
  "cosineSimilarity (map Fin ra) (map Fin rb) =
     (let n = min (length ra) (length rb);
          d = (\<Sum>(x, y)\<leftarrow>zip ra rb. x * y);
          A = (\<Sum>x\<leftarrow>take n ra. x * x);
          B = (\<Sum>y\<leftarrow>take n rb. y * y)
      in if A = 0 \<or> B = 0 then Fin 0 else Fin (d / sqrt (A * B)))"
proof -
  let ?n = "min (length ra) (length rb)"
  have nn: "0 \<le> (\<Sum>x\<leftarrow>take ?n ra. x * x) * (\<Sum>y\<leftarrow>take ?n rb. y * y)"
    by (intro mult_nonneg_nonneg sum_list_sq_nonneg)
  show ?thesis
    unfolding cosineSimilarity_alt Let_def dot_Fin length_map take_map foldl_sq_step_Fin
    using nn by (simp add: is_zero_def not_less)
qed

lemma cosine_bound:
  fixes d A B :: real
  assumes "d * d \<le> A * B" "A * B \<noteq> 0"
  shows "- 1 \<le> d / sqrt (A * B) \<and> d / sqrt (A * B) \<le> 1"
proof -
  have "0 \<le> d * d" by simp
  with assms have pos: "0 < A * B" by linarith
  have "\<bar>d\<bar> = sqrt (d * d)" by simp
  also have "\<dots> \<le> sqrt (A * B)" using assms(1) by (simp only: real_sqrt_le_iff)
  finally have "\<bar>d\<bar> \<le> sqrt (A * B)" .
  moreover have "0 < sqrt (A * B)" using pos by simp
  ultimately have "\<bar>d / sqrt (A * B)\<bar> \<le> 1" by (simp add: abs_divide)
  then have "d / sqrt (A * B) \<le> 1" "- (d / sqrt (A * B)) \<le> 1"
    by (simp_all only: abs_le_iff)
  then show ?thesis by linarith
qed

lemma cosineSimilarity_Fin_range:
  "in_range (- 1) 1 (cosineSimilarity (map Fin ra) (map Fin rb))"
proof -
  let ?n = "min (length ra) (length rb)"
  let ?ra = "take ?n ra" and ?rb = "take ?n rb"
  have l: "length ?ra = length ?rb" by simp
  have z: "zip ra rb = zip ?ra ?rb" by (simp add: take_zip [symmetric])
  let ?d = "\<Sum>(x, y)\<leftarrow>zip ra rb. x * y" and ?A = "\<Sum>x\<leftarrow>?ra. x * x" and ?B = "\<Sum>y\<leftarrow>?rb. y * y"
  have cs: "?d * ?d \<le> ?A * ?B"
    using Cauchy_Schwarz_list [of "zip ?ra ?rb"]
    unfolding sum_zip_fst [OF l] sum_zip_snd [OF l] z .
  show ?thesis
  proof (cases "?A = 0 \<or> ?B = 0")
    case True
    then show ?thesis unfolding cosineSimilarity_Fin Let_def by (simp add: in_range_def)
  next
    case False
    then have "?A * ?B \<noteq> 0" by simp
    from cosine_bound [OF cs this] False show ?thesis
      unfolding cosineSimilarity_Fin Let_def by (simp add: in_range_def)
  qed
qed

lemma percent_score_range: "in_range (- 1) 1 c \<Longrightarrow> in_range 0 100 (percent_score c)"
  by (cases c) (auto simp: in_range_def percent_score_def Math_max_def max2_def)

lemma normalizeVector_Fin: "\<exists>rv. normalizeVector v = map Fin rv"
proof -
  from normalizeVector_cases [of v] show ?thesis
  proof
    assume "\<exists>rv. v = map Fin rv \<and> (\<Sum>x\<leftarrow>rv. x * x) \<noteq> 0 \<and> isFinite (magnitude v) \<and> \<not> is_zero (magnitude v)
       \<and> normalizeVector v = map Fin (map (\<lambda>x. x / sqrt (\<Sum>x\<leftarrow>rv. x * x)) rv)"
    then show ?thesis by blast
  next
    assume "(\<not> isFinite (magnitude v) \<or> is_zero (magnitude v)) \<and> normalizeVector v = replicate (length v) (Fin 0)"
    then have "normalizeVector v = map Fin (replicate (length v) 0)" by simp
    then show ?thesis by (rule exI)
  qed
qed

lemma normalized_score_range:
  "in_range (- 1) 1 (cosineSimilarity (normalizeVector q) (normalizeVector e)) \<and>
   in_range 0 100 (percent_score (cosineSimilarity (normalizeVector q) (normalizeVector e)))"
proof -
  obtain rq where q: "normalizeVector q = map Fin rq" using normalizeVector_Fin by blast
  obtain re where e: "normalizeVector e = map Fin re" using normalizeVector_Fin by blast
  show ?thesis unfolding q e using cosineSimilarity_Fin_range percent_score_range by blast
qed


section \<open>The loop of the extractor computes the sums over the pixels\<close>

lemma Math_max3: "Math_max [Fin r, Fin g, Fin b] = Fin (Max {r, g, b})"
  by (simp add: Math_max_def max2_def max_def)

lemma Math_min3: "Math_min [Fin r, Fin g, Fin b] = Fin (Min {r, g, b})"
  by (simp add: Math_min_def min2_def min_def)

lemma Math_max2: "Math_max [Fin x, Fin y] = Fin (max x y)"
  by (simp add: Math_max_def max2_def max_def)

lemma byte_at_in_range: "i < length data \<Longrightarrow> byte_at data i = Fin (real (unat (data ! i)))"
  by (simp add: byte_at_def)

lemma pixel_step_saturation:
  "(if is_zero (Fin (Max {r, g, b})) then Fin 0
    else js_div (js_sub (Fin (Max {r, g, b})) (Fin (Min {r, g, b}))) (Fin (Max {r, g, b})))
   = Fin (saturation (r, g, b))"
  by (simp add: is_zero_def js_sub_def)

lemma embedding_loop_step:
  assumes "4 * k + 2 < length data"
  shows "embedding_loop data (4 * k) (fin_totals R G B Br Sq S) =
         embedding_loop data (4 * Suc k)
           (fin_totals (R + red (pixel data k)) (G + green (pixel data k)) (B + blue (pixel data k))
              (Br + brightness (pixel data k)) (Sq + (brightness (pixel data k))\<^sup>2)
              (S + saturation (pixel data k)))"
proof -
  from assms have i: "4 * k < length data" "4 * k + 1 < length data" by simp_all
  have four: "4 * k + 4 = 4 * Suc k" by simp
  show ?thesis
    apply (subst embedding_loop.simps)
    apply (simp only: i assms byte_at_in_range if_True Let_def Math_max3 Math_min3
        pixel_step_saturation four)
    apply (simp add: fin_totals_def pixel_def js_sub_def power2_eq_square del: saturation.simps)
    done
qed

lemma embedding_loop_sums:
  assumes "length data = 4 * n"
  shows "k \<le> n \<Longrightarrow>
    embedding_loop data (4 * k) (fin_totals R G B Br Sq S) =
      fin_totals (R + (\<Sum>j\<leftarrow>[k..<n]. red (pixel data j)))
                 (G + (\<Sum>j\<leftarrow>[k..<n]. green (pixel data j)))
                 (B + (\<Sum>j\<leftarrow>[k..<n]. blue (pixel data j)))
                 (Br + (\<Sum>j\<leftarrow>[k..<n]. brightness (pixel data j)))
                 (Sq + (\<Sum>j\<leftarrow>[k..<n]. (brightness (pixel data j))\<^sup>2))
                 (S + (\<Sum>j\<leftarrow>[k..<n]. saturation (pixel data j)))"
proof (induction "n - k" arbitrary: k R G B Br Sq S)
  case 0
  then have "k = n" by simp
  then have "\<not> 4 * k < length data" using assms by simp
  then have "embedding_loop data (4 * k) (fin_totals R G B Br Sq S) = fin_totals R G B Br Sq S"
    by (subst embedding_loop.simps) simp
  with \<open>k = n\<close> show ?case by simp
next
  case (Suc m)
  then have lt: "k < n" by simp
  then have "4 * k + 2 < length data" using assms by simp
  note step = embedding_loop_step [OF this]
  have u: "[k..<n] = k # [Suc k..<n]" using lt by (simp add: upt_conv_Cons)
  have "m = n - Suc k" "Suc k \<le> n" using Suc.hyps(2) lt by simp_all
  from Suc.hyps(1) [OF this] show ?case
    unfolding step u by (simp add: add.assoc)
qed

lemma embedding_of_data_statistics:
  assumes "length data = 4 * (N * N)"
  shows "embedding_of_data data = normalizeVector (statistics data)"
proof -
  have z: "\<lparr>redTotal = Fin 0, greenTotal = Fin 0, blueTotal = Fin 0,
            brightnessTotal = Fin 0, brightnessSquares = Fin 0, saturationTotal = Fin 0\<rparr>
           = fin_totals 0 0 0 0 0 0" by (simp add: fin_totals_def)
  have loop: "embedding_loop data 0 (fin_totals 0 0 0 0 0 0) =
      fin_totals (\<Sum>p\<leftarrow>pixels data. red p) (\<Sum>p\<leftarrow>pixels data. green p) (\<Sum>p\<leftarrow>pixels data. blue p)
        (\<Sum>p\<leftarrow>pixels data. brightness p) (\<Sum>p\<leftarrow>pixels data. (brightness p)\<^sup>2)
        (\<Sum>p\<leftarrow>pixels data. saturation p)"
    using embedding_loop_sums [OF assms, of 0 0 0 0 0 0 0]
    by (simp add: pixels_def o_def)
  have pc: "js_mul CANVAS_SIZE CANVAS_SIZE = Fin (real (N * N))"
    by (simp add: CANVAS_SIZE_def N_def)
  have nz: "real (N * N) \<noteq> 0" by (simp add: N_def)
  show ?thesis
    unfolding embedding_of_data_def z loop pc Let_def
    using nz
    by (simp add: fin_totals_def statistics_def mean_r_def mean_g_def mean_b_def
        mean_brightness_def brightness_variance_def contrast_def mean_saturation_def
        js_sub_def Math_max2 power2_eq_square not_less)
qed


section \<open>Sorting and cutting the scores\<close>

lemma mset_sort_insert: "mset (sort_insert cmp x ys) = add_mset x (mset ys)"
  by (induction ys) simp_all

lemma mset_Array_sort: "mset (Array_sort cmp xs) = mset xs"
  unfolding Array_sort_def by (induction xs) (simp_all add: mset_sort_insert)








lemma embedding_of_data_normalized: "\<exists>v. embedding_of_data data = normalizeVector v"
  unfolding embedding_of_data_def Let_def by (rule exI) (rule refl)


lemma score_entry_range:
  "in_range 0 100 (similarity (score_entry (embedding_of_data data) entry))"
proof -
  obtain v where "embedding_of_data data = normalizeVector v"
    using embedding_of_data_normalized by blast
  then show ?thesis using normalized_score_range [of v "embedding entry"]
    by (simp add: score_entry_def)
qed


lemma findSimilarProducts_ranked:
  "getContext_2d doc \<Longrightarrow> 0 \<le> limit_of topK \<Longrightarrow>
     findSimilarProducts doc (Inr data) catalog topK = Inr (take (nat (limit_of topK)) (ranked data catalog))"
  by (simp add: findSimilarProducts_def getImageEmbedding_def createCanvas_def ranked_def
      by_similarity_def [abs_def] Array_slice0_def limit_of_def)






section \<open>A uniform image and the scores of the example catalog\<close>

lemma nth_concat_replicate4:
  "i < n \<Longrightarrow> j < 4 \<Longrightarrow> concat (replicate n [a, b, c, d]) ! (4 * i + j) = [a, b, c, d] ! j"
proof (induction n arbitrary: i)
  case 0
  then show ?case by simp
next
  case (Suc n)
  show ?case
  proof (cases i)
    case 0
    from Suc.prems(2) have "j = 0 \<or> j = 1 \<or> j = 2 \<or> j = 3" by arith
    with 0 show ?thesis by auto
  next
    case (Suc i')
    with Suc.prems have "i' < n" by simp
    from Suc.IH [OF this Suc.prems(2)] Suc show ?thesis
      by (simp add: nth_append)
  qed
qed

lemma pixel_uniform:
  "k < N * N \<Longrightarrow> pixel (uniform_image r g b) k = (real (unat r), real (unat g), real (unat b))"
  using nth_concat_replicate4 [of k "N * N" 0 r g b 255]
    nth_concat_replicate4 [of k "N * N" 1 r g b 255]
    nth_concat_replicate4 [of k "N * N" 2 r g b 255]
  by (simp add: pixel_def uniform_image_def)

lemma pixels_uniform:
  "pixels (uniform_image r g b) = replicate (N * N) (real (unat r), real (unat g), real (unat b))"
  unfolding pixels_def
  by (rule nth_equalityI) (simp_all add: pixel_uniform)

lemma length_uniform: "length (uniform_image r g b) = 4 * (N * N)"
  by (simp add: uniform_image_def length_concat sum_list_replicate)

lemma sum_list_map_replicate: "sum_list (map f (replicate n x)) = real n * (f x :: real)"
  by (induction n) (simp_all add: algebra_simps)

lemma statistics_uniform:
  "statistics (uniform_image r g b) =
     (let p = (real (unat r), real (unat g), real (unat b)) in
      map Fin [red p / 255, green p / 255, blue p / 255, brightness p, 0, saturation p])"
proof -
  have nz: "real (N * N) \<noteq> 0" by (simp add: N_def)
  show ?thesis
    unfolding statistics_def mean_r_def mean_g_def mean_b_def mean_brightness_def contrast_def
      brightness_variance_def mean_saturation_def pixels_uniform sum_list_map_replicate Let_def
    using nz by (simp del: saturation.simps brightness.simps of_nat_mult add: power2_eq_square)
qed

lemma statistics_white: "statistics white_image = map Fin [1, 1, 1, 1, 0, 0]"
  unfolding white_image_def statistics_uniform by simp

lemma embedding_white:
  "embedding_of_data white_image = [Fin (1/2), Fin (1/2), Fin (1/2), Fin (1/2), Fin 0, Fin 0]"
proof -
  have "length white_image = 4 * (N * N)" by (simp add: white_image_def length_uniform)
  from embedding_of_data_statistics [OF this] show ?thesis
    unfolding statistics_white
    by (simp add: normalizeVector_def magnitude_def is_zero_def)
qed

lemma sqrt25: "sqrt 25 = 5"
  by (rule real_sqrt_unique) simp_all

lemma cos1:
  "cosineSimilarity [Fin (1/2), Fin (1/2), Fin (1/2), Fin (1/2), Fin 0, Fin 0]
     (normalizeVector [Fin 0, Fin 0, Fin 0, Fin 0, Fin 0, Fin 1]) = Fin 0"
proof -
  have n: "normalizeVector [Fin 0, Fin 0, Fin 0, Fin 0, Fin 0, Fin 1]
             = [Fin 0, Fin 0, Fin 0, Fin 0, Fin 0, Fin 1]"
    by (simp add: normalizeVector_def magnitude_def is_zero_def)
  show ?thesis
    using cosineSimilarity_Fin [of "[1/2, 1/2, 1/2, 1/2, 0, 0]" "[0, 0, 0, 0, 0, 1]"]
    by (simp add: n)
qed

lemma cos2:
  "cosineSimilarity [Fin (1/2), Fin (1/2), Fin (1/2), Fin (1/2), Fin 0, Fin 0]
     (normalizeVector [Fin 3, Fin 4, Fin 0, Fin 0, Fin 0, Fin 0]) = Fin (7/10)"
proof -
  have n: "normalizeVector [Fin 3, Fin 4, Fin 0, Fin 0, Fin 0, Fin 0]
             = [Fin (3/5), Fin (4/5), Fin 0, Fin 0, Fin 0, Fin 0]"
    by (simp add: normalizeVector_def magnitude_def is_zero_def sqrt25)
  show ?thesis
    using cosineSimilarity_Fin [of "[1/2, 1/2, 1/2, 1/2, 0, 0]" "[3/5, 4/5, 0, 0, 0, 0]"]
    by (simp add: n)
qed

lemma cos3:
  "cosineSimilarity [Fin (1/2), Fin (1/2), Fin (1/2), Fin (1/2), Fin 0, Fin 0]
     (normalizeVector [Fin 1, Fin 1, Fin 1, Fin 1, Fin 0, Fin 0]) = Fin 1"
proof -
  have n: "normalizeVector [Fin 1, Fin 1, Fin 1, Fin 1, Fin 0, Fin 0]
             = [Fin (1/2), Fin (1/2), Fin (1/2), Fin (1/2), Fin 0, Fin 0]"
    by (simp add: normalizeVector_def magnitude_def is_zero_def)
  show ?thesis
    using cosineSimilarity_Fin [of "[1/2, 1/2, 1/2, 1/2, 0, 0]" "[1/2, 1/2, 1/2, 1/2, 0, 0]"]
    by (simp add: n)
qed

lemma ranked_demo:
  "ranked white_image demo_catalog =
     [\<lparr>score_id = 3, similarity = Fin 100\<rparr>, \<lparr>score_id = 2, similarity = Fin 70\<rparr>,
      \<lparr>score_id = 1, similarity = Fin 0\<rparr>]"
  unfolding ranked_def embedding_white demo_catalog_def
  by (simp add: score_entry_def cos1 cos2 cos3 percent_score_def Math_max_def max2_def
      Array_sort_def by_similarity_def js_sub_def)

lemma findSimilarProducts_demo:
  "findSimilarProducts demo_doc (Inr white_image) demo_catalog (Some 2) =
     Inr [\<lparr>score_id = 3, similarity = Fin 100\<rparr>, \<lparr>score_id = 2, similarity = Fin 70\<rparr>]"
proof -
  have "findSimilarProducts demo_doc (Inr white_image) demo_catalog (Some 2) =
          Inr (take (nat (limit_of (Some 2))) (ranked white_image demo_catalog))"
    by (rule findSimilarProducts_ranked) (simp_all add: demo_doc_def limit_of_def)
  then show ?thesis unfolding ranked_demo by (simp add: limit_of_def)
qed



section \<open>Rounding to binary64 at a given number\<close>

lemma round_even_near:
  fixes r :: real and m :: int
  assumes "\<bar>r - of_int m\<bar> < 1 / 2"
  shows "round_even r = m"
proof (cases "of_int m \<le> r")
  case True
  with assms have "of_int m \<le> r" "r < of_int m + 1" by (simp_all add: abs_less_iff)
  then have f: "\<lfloor>r\<rfloor> = m" by (simp add: floor_unique)
  from True assms have "r - of_int m < 1 / 2" by (simp add: abs_less_iff)
  with f show ?thesis by (simp add: round_even_def Let_def)
next
  case False
  with assms have "of_int (m - 1) \<le> r" "r < of_int (m - 1) + 1" by (simp_all add: abs_less_iff)
  then have f: "\<lfloor>r\<rfloor> = m - 1" by (rule floor_unique)
  from False assms have "1 / 2 < r - of_int (m - 1)" by (simp add: abs_less_iff)
  with f show ?thesis by (simp add: round_even_def Let_def)
qed

lemma binade_eq:
  fixes x :: real and k :: int
  assumes "2 powr of_int k \<le> \<bar>x\<bar>" "\<bar>x\<bar> < 2 powr of_int (k + 1)"
  shows "binade x = max k (- 1022)"
proof -
  have "0 < \<bar>x\<bar>" using assms(1) by (smt (verit) powr_gt_zero)
  then have "\<lfloor>log 2 \<bar>x\<bar>\<rfloor> = k"
    using assms by (simp add: floor_log_eq_powr_iff)
  then show ?thesis by (simp add: binade_def)
qed

text \<open>A positive number in the binade \<open>[p, 2p)\<close>, \<open>p = 2^k\<close>, rounds to the multiple \<open>y\<close> of the spacing \<open>p / 2^52\<close> that is nearer than half the spacing.\<close>

lemma powr2_int:
  "(2::real) powr of_int k = (if 0 \<le> k then 2 ^ nat k else 1 / 2 ^ nat (- k))"
  by (simp add: powr_real_of_int inverse_eq_divide)

lemma round64_pos:
  fixes x y p :: real and k m :: int
  assumes k: "- 1022 \<le> k" "k \<le> 1023"
    and p2: "p = (if 0 \<le> k then 2 ^ nat k else 1 / 2 ^ nat (- k))"
    and x: "p \<le> x" "x < 2 * p"
    and y: "y = of_int m * (p / 2 ^ 52)"
    and near: "\<bar>x - y\<bar> < p / 2 ^ 53"
    and fin: "y < 2 ^ 1024"
  shows "round64 x = Fin y"
proof -
  define u where "u = p / 2 ^ 52"
  have p: "p = 2 powr of_int k" by (simp only: p2 powr2_int)
  have ppos: "0 < p" by (simp add: p)
  then have upos: "0 < u" by (simp add: u_def)
  have half: "p / 2 ^ 53 = u / 2" by (simp add: u_def)
  from x ppos have xpos: "0 < x" by simp
  then have xne: "x \<noteq> 0" and absx: "\<bar>x\<bar> = x" and sgnx: "sgn x = 1" by simp_all
  have "2 powr of_int (k + 1) = 2 * p" by (simp add: p powr_add)
  with x xpos have "binade x = max k (- 1022)"
    by (intro binade_eq) (simp_all add: p)
  with k have b: "binade x = k" by simp
  have "(2::real) powr (real_of_int k - 52) = 2 powr real_of_int k / 2 powr 52"
    by (rule powr_diff)
  also have "(2::real) powr 52 = 2 ^ 52" by simp
  finally have q: "(2::real) powr real_of_int (k - 52) = u"
    by (simp only: u_def p of_int_diff of_int_numeral)
  have yu: "y = of_int m * u" by (simp only: y u_def)
  have "\<bar>x / u - of_int m\<bar> = \<bar>x - y\<bar> / u"
    using upos by (simp add: yu field_simps abs_divide)
  also have "\<dots> < (u / 2) / u"
    using near upos unfolding half by (intro divide_strict_right_mono)
  also have "\<dots> = 1 / 2" using upos by simp
  finally have re: "round_even (x / u) = m" by (rule round_even_near)
  have nf: "\<not> 2 ^ 1024 \<le> of_int m * u" using fin unfolding yu by simp
  have "round64 x = Fin (sgn x * (of_int m * u))"
    unfolding round64_def Let_def b q absx re using xne nf by (simp only: if_False)
  then show ?thesis by (simp only: sgnx yu mult_1)
qed

lemma round64_sqrt_pos:
  fixes z y p :: real and k m :: int
  assumes k: "- 1022 \<le> k" "k \<le> 1023"
    and p2: "p = (if 0 \<le> k then 2 ^ nat k else 1 / 2 ^ nat (- k))"
    and z: "p * p \<le> z" "z < (2 * p) * (2 * p)"
    and y: "y = of_int m * (p / 2 ^ 52)"
    and lo: "p / 2 ^ 53 \<le> y" "(y - p / 2 ^ 53) * (y - p / 2 ^ 53) < z"
    and hi: "z < (y + p / 2 ^ 53) * (y + p / 2 ^ 53)"
    and fin: "y < 2 ^ 1024"
  shows "round64 (sqrt z) = Fin y"
proof -
  define h where "h = p / 2 ^ 53"
  have p: "p = 2 powr of_int k" by (simp only: p2 powr2_int)
  have ppos: "0 < p" by (simp add: p)
  then have hpos: "0 < h" by (simp add: h_def)
  have 1: "p \<le> sqrt z"
    using z(1) ppos by (intro real_le_rsqrt) (simp add: power2_eq_square)
  have 2: "sqrt z < 2 * p"
    using z(2) ppos by (intro real_less_lsqrt) (simp_all add: power2_eq_square)
  have "0 \<le> y - h" using lo(1) by (simp add: h_def)
  moreover have "(y - h)\<^sup>2 < z" using lo(2) by (simp only: h_def power2_eq_square)
  ultimately have 3: "y - h < sqrt z" by (intro real_less_rsqrt)
  have "0 \<le> y + h" using lo(1) hpos by (simp add: h_def)
  moreover have "z < (y + h)\<^sup>2" using hi by (simp only: h_def power2_eq_square)
  ultimately have 4: "sqrt z < y + h" by (intro real_less_lsqrt)
  from 3 4 have "\<bar>sqrt z - y\<bar> < h" by (simp only: abs_less_iff) linarith
  then have "\<bar>sqrt z - y\<bar> < p / 2 ^ 53" by (simp only: h_def)
  from round64_pos [OF k p2 1 2 y this fin] show ?thesis .
qed

lemma round64_zero: "round64 0 = Fin 0"
  by (simp add: round64_def)

lemma r_add_eq: "round64 (x + y) = Fin z \<Longrightarrow> r_add round64 (Fin x) (Fin y) = Fin z"
  by simp

lemma r_sub_eq: "round64 (x - y) = Fin z \<Longrightarrow> r_sub round64 (Fin x) (Fin y) = Fin z"
  by (simp add: r_sub_def)

lemma r_mul_eq: "round64 (x * y) = Fin z \<Longrightarrow> r_mul round64 (Fin x) (Fin y) = Fin z"
  by simp

lemma r_div_eq: "round64 (x / y) = Fin z \<Longrightarrow> y \<noteq> 0 \<Longrightarrow> r_div round64 (Fin x) (Fin y) = Fin z"
  by simp

lemma r_sqrt_eq: "round64 (sqrt x) = Fin z \<Longrightarrow> 0 \<le> x \<Longrightarrow> r_sqrt round64 (Fin x) = Fin z"
  by simp

section \<open>The module with rounded operations: structure\<close>

text \<open>Without rounding, the rounded operations are the exact ones.\<close>

lemma r_add_exact: "r_add Fin = js_add"
proof (intro ext)
  fix a b show "r_add Fin a b = js_add a b" by (cases a; cases b) simp_all
qed

lemma r_sub_exact: "r_sub Fin = js_sub"
  by (intro ext) (simp add: r_sub_def js_sub_def r_add_exact)

lemma r_mul_exact: "r_mul Fin = js_mul"
proof (intro ext)
  fix a b show "r_mul Fin a b = js_mul a b" by (cases a; cases b) simp_all
qed

lemma r_div_exact: "r_div Fin = js_div"
proof (intro ext)
  fix a b show "r_div Fin a b = js_div a b" by (cases a; cases b) simp_all
qed

lemma r_sqrt_exact: "r_sqrt Fin = Math_sqrt"
proof (intro ext)
  fix a show "r_sqrt Fin a = Math_sqrt a" by (cases a) simp_all
qed

lemmas r_exact = r_add_exact r_sub_exact r_mul_exact r_div_exact r_sqrt_exact

lemma magnitude_r_exact: "magnitude_r Fin = magnitude"
  by (intro ext) (unfold magnitude_r_def magnitude_def r_exact, rule refl)

lemma normalizeVector_r_exact: "normalizeVector_r Fin = normalizeVector"
  by (intro ext) (unfold normalizeVector_r_def normalizeVector_def magnitude_r_exact r_exact,
      rule refl)

lemma cosine_loop_r_exact: "cosine_loop_r Fin a b len i acc = cosine_loop a b len i acc"
proof (induction "len - i" arbitrary: i acc rule: less_induct)
  case less
  obtain d ma mb where acc: "acc = (d, ma, mb)" by (cases acc)
  show ?case
  proof (cases "i < len")
    case True
    then have "len - (i + 1) < len - i" by simp
    note ih = less [OF this]
    show ?thesis
      unfolding acc
      apply (subst cosine_loop_r.simps)
      apply (subst cosine_loop.simps)
      apply (simp only: True if_True ih r_exact)
      done
  next
    case False
    show ?thesis
      unfolding acc
      apply (subst cosine_loop_r.simps)
      apply (subst cosine_loop.simps)
      apply (simp only: False if_False)
      done
  qed
qed

lemma cosineSimilarity_r_exact: "cosineSimilarity_r Fin = cosineSimilarity"
  by (intro ext)
     (unfold cosineSimilarity_r_def cosineSimilarity_def cosine_loop_r_exact r_exact, rule refl)

lemma percent_score_r_exact: "percent_score_r Fin = percent_score"
  by (intro ext) (unfold percent_score_r_def percent_score_def r_exact, rule refl)

lemma score_entry_r_exact: "score_entry_r Fin = score_entry"
  by (intro ext) (unfold score_entry_r_def score_entry_def percent_score_r_exact
      cosineSimilarity_r_exact normalizeVector_r_exact, rule refl)

lemma embedding_loop_r_exact: "embedding_loop_r Fin data i t = embedding_loop data i t"
proof (induction "length data - i" arbitrary: i t rule: less_induct)
  case less
  show ?case
  proof (cases "i < length data")
    case True
    then have "length data - (i + 4) < length data - i" by simp
    note ih = less [OF this]
    show ?thesis
      apply (subst embedding_loop_r.simps)
      apply (subst embedding_loop.simps)
      apply (simp only: True if_True ih r_exact Let_def)
      done
  next
    case False
    show ?thesis
      apply (subst embedding_loop_r.simps)
      apply (subst embedding_loop.simps)
      apply (simp only: False if_False)
      done
  qed
qed

lemma embedding_of_data_r_exact: "embedding_of_data_r Fin = embedding_of_data"
  by (intro ext)
     (unfold embedding_of_data_r_def embedding_of_data_def embedding_loop_r_exact
        normalizeVector_r_exact r_exact, rule refl)

lemma getImageEmbedding_r_exact: "getImageEmbedding_r Fin = getImageEmbedding"
  by (intro ext)
     (unfold getImageEmbedding_r_def getImageEmbedding_def embedding_of_data_r_exact, rule refl)

lemma findSimilarProducts_r_exact: "findSimilarProducts_r Fin = findSimilarProducts"
  by (intro ext)
     (unfold findSimilarProducts_r_def findSimilarProducts_def getImageEmbedding_r_exact
        score_entry_r_exact r_exact, rule refl)

lemma set_Array_slice0: "set (Array_slice0 xs e) \<subseteq> set xs"
  unfolding Array_slice0_def by (simp add: set_take_subset)

text \<open>The normalizer.\<close>

lemma magnitude_r_sq_step: "magnitude_r rnd v = r_sqrt rnd (foldl (sq_step_r rnd) (Fin 0) v)"
  unfolding magnitude_r_def sq_step_r_def ..



lemma normalizeVector_r_degenerate:
  "\<not> isFinite (magnitude_r rnd v) \<or> is_zero (magnitude_r rnd v) \<Longrightarrow>
     normalizeVector_r rnd v = zero_vector (length v)"
  by (auto simp: normalizeVector_r_def Let_def map_replicate_const zero_vector_def)


lemma normalizeVector_r_Fin:
  "magnitude_r rnd v = Fin m \<Longrightarrow> m \<noteq> 0 \<Longrightarrow>
     normalizeVector_r rnd v = map (\<lambda>value. r_div rnd value (Fin m)) v"
  by (simp add: normalizeVector_r_def Let_def is_zero_def)

lemma foldl_sq_step_r_zeros:
  "rnd 0 = Fin 0 \<Longrightarrow> foldl (sq_step_r rnd) (Fin 0) (replicate n (Fin 0)) = Fin 0"
  by (induction n) (simp_all add: sq_step_r_def)

lemma normalizeVector_r_zero_vector:
  assumes "rnd 0 = Fin 0"
  shows "normalizeVector_r rnd (zero_vector n) = zero_vector n"
proof -
  have "magnitude_r rnd (zero_vector n) = Fin 0"
    unfolding magnitude_r_sq_step zero_vector_def
    using assms by (simp add: foldl_sq_step_r_zeros)
  then show ?thesis
    using normalizeVector_r_degenerate [of rnd "zero_vector n"]
    by (simp add: is_zero_def zero_vector_def)
qed

text \<open>The cosine similarity of two vectors of the same length, as three sums.\<close>

lemma cosine_loop_r_foldl:
  "cosine_loop_r rnd a b len i (d, ma, mb) =
     (foldl (dot_step_r rnd a b) d [i..<len], foldl (dot_step_r rnd a a) ma [i..<len],
      foldl (dot_step_r rnd b b) mb [i..<len])"
proof (induction rnd a b len i "(d, ma, mb)" arbitrary: d ma mb rule: cosine_loop_r.induct)
  case (1 rnd a b len i d ma mb)
  show ?case
  proof (cases "i < len")
    case True
    then have u: "[i..<len] = i # [Suc i..<len]" by (simp add: upt_conv_Cons)
    show ?thesis
      apply (subst cosine_loop_r.simps)
      apply (simp only: True if_True "1.hyps" [OF True] u foldl_Cons dot_step_r_def)
      apply simp
      done
  next
    case False
    then show ?thesis by (subst cosine_loop_r.simps) simp
  qed
qed

lemma foldl_dot_step_r_self:
  "foldl (dot_step_r rnd a a) acc js = foldl (sq_step_r rnd) acc (map (at_index a) js)"
  by (induction js arbitrary: acc) (simp_all add: dot_step_r_def sq_step_r_def)

lemma foldl_dot_step_r_zip:
  "foldl (dot_step_r rnd a b) acc js =
     foldl (r_add rnd) acc
       (map (\<lambda>(x, y). r_mul rnd x y) (zip (map (at_index a) js) (map (at_index b) js)))"
  by (induction js arbitrary: acc) (simp_all add: dot_step_r_def)

lemma map_at_index_all: "map (at_index a) [0..<length a] = a"
  by (rule nth_equalityI) (simp_all add: at_index_def)

lemma cosineSimilarity_r_sums:
  assumes "length a = length b"
  shows "cosineSimilarity_r rnd a b =
     (let dot = foldl (r_add rnd) (Fin 0) (map (\<lambda>(x, y). r_mul rnd x y) (zip a b));
          magA = foldl (sq_step_r rnd) (Fin 0) a;
          magB = foldl (sq_step_r rnd) (Fin 0) b
      in if is_zero magA \<or> is_zero magB then Fin 0
         else r_div rnd dot (r_sqrt rnd (r_mul rnd magA magB)))"
proof -
  have b: "map (at_index b) [0..<length a] = b"
    using map_at_index_all [of b] assms by simp
  show ?thesis
    unfolding cosineSimilarity_r_def cosine_loop_r_foldl Let_def prod.case
      foldl_dot_step_r_self foldl_dot_step_r_zip
    by (simp add: assms [symmetric] map_at_index_all b
        del: cosine_loop_r.simps)
qed

text \<open>The score is never below 0, whatever the rounding.\<close>

lemma percent_score_r_not_negative: "not_negative (percent_score_r rnd c)"
  by (cases "r_mul rnd c (Fin 100)")
     (simp_all add: percent_score_r_def not_negative_def Math_max_def max2_def)

lemma findSimilarProducts_r_Inr:
  assumes "findSimilarProducts_r rnd doc img catalog topK = Inr res"
  shows "\<exists>q. set res \<subseteq> set (map (score_entry_r rnd q) catalog)"
proof -
  from assms obtain q where
    r: "res = Array_slice0
              (Array_sort (\<lambda>a b. r_sub rnd (similarity b) (similarity a))
                 (map (score_entry_r rnd q) catalog))
              (case topK of None \<Rightarrow> 12 | Some k \<Rightarrow> k)"
    by (auto simp: findSimilarProducts_r_def split: sum.splits)
  have "set res \<subseteq> set (Array_sort (\<lambda>a b. r_sub rnd (similarity b) (similarity a))
                 (map (score_entry_r rnd q) catalog))"
    unfolding r by (rule set_Array_slice0)
  also have "\<dots> = set (map (score_entry_r rnd q) catalog)"
    using mset_Array_sort [of "\<lambda>a b. r_sub rnd (similarity b) (similarity a)"
        "map (score_entry_r rnd q) catalog", THEN arg_cong, of set_mset]
    by simp
  finally show ?thesis by (rule exI)
qed

lemma findSimilarProducts_r_not_negative:
  assumes "findSimilarProducts_r rnd doc img catalog topK = Inr res" "s \<in> set res"
  shows "not_negative (similarity s)"
proof -
  from findSimilarProducts_r_Inr [OF assms(1)] assms(2)
  obtain q where "s \<in> set (map (score_entry_r rnd q) catalog)" by blast
  then obtain entry where "s = score_entry_r rnd q entry" by auto
  then show ?thesis by (simp add: score_entry_r_def percent_score_r_not_negative)
qed

text \<open>The loop of the extractor adds one pixel after the other.\<close>

lemma pixel_in_range:
  assumes "4 * k + 2 < length data"
  shows "(byte_at data (4 * k), byte_at data (4 * k + 1), byte_at data (4 * k + 2))
           = (\<lambda>(r, g, b). (Fin r, Fin g, Fin b)) (pixel data k)"
  using assms by (simp add: byte_at_def pixel_def)

lemma embedding_loop_r_step:
  assumes "4 * k + 2 < length data"
  shows "embedding_loop_r rnd data (4 * k) t =
         embedding_loop_r rnd data (4 * Suc k)
           (pixel_step rnd t ((\<lambda>(r, g, b). (Fin r, Fin g, Fin b)) (pixel data k)))"
proof -
  from assms have i: "4 * k < length data" by simp
  have four: "4 * k + 4 = 4 * Suc k" by simp
  obtain r g b where p: "pixel data k = (r, g, b)" by (cases "pixel data k")
  from pixel_in_range [OF assms] p
  have bytes: "byte_at data (4 * k) = Fin r" "byte_at data (4 * k + 1) = Fin g"
    "byte_at data (4 * k + 2) = Fin b" by simp_all
  show ?thesis
    apply (subst embedding_loop_r.simps)
    apply (simp only: i if_True bytes four Let_def p prod.case)
    apply (simp add: pixel_step_def del: embedding_loop_r.simps)
    done
qed

lemma embedding_loop_r_fold:
  assumes "length data = 4 * n"
  shows "k \<le> n \<Longrightarrow>
    embedding_loop_r rnd data (4 * k) t =
      foldl (pixel_step rnd) t (map (\<lambda>j. (\<lambda>(r, g, b). (Fin r, Fin g, Fin b)) (pixel data j)) [k..<n])"
proof (induction "n - k" arbitrary: k t)
  case 0
  then have "k = n" by simp
  then have "\<not> 4 * k < length data" using assms by simp
  then have "embedding_loop_r rnd data (4 * k) t = t"
    by (subst embedding_loop_r.simps) simp
  with \<open>k = n\<close> show ?case by simp
next
  case (Suc m)
  then have lt: "k < n" by simp
  then have "4 * k + 2 < length data" using assms by simp
  note step = embedding_loop_r_step [OF this]
  have u: "[k..<n] = k # [Suc k..<n]" using lt by (simp add: upt_conv_Cons)
  have "m = n - Suc k" "Suc k \<le> n" using Suc.hyps(2) lt by simp_all
  from Suc.hyps(1) [OF this] show ?case
    unfolding step u by (simp del: embedding_loop_r.simps)
qed

lemma foldl_pixel_step:
  "foldl (pixel_step rnd) t ps =
     \<lparr>redTotal = foldl (r_add rnd) (redTotal t) (map red_of ps),
      greenTotal = foldl (r_add rnd) (greenTotal t) (map green_of ps),
      blueTotal = foldl (r_add rnd) (blueTotal t) (map blue_of ps),
      brightnessTotal = foldl (r_add rnd) (brightnessTotal t) (map (brightness_r rnd) ps),
      brightnessSquares =
        foldl (r_add rnd) (brightnessSquares t)
          (map (\<lambda>p. r_mul rnd (brightness_r rnd p) (brightness_r rnd p)) ps),
      saturationTotal = foldl (r_add rnd) (saturationTotal t) (map (saturation_r rnd) ps)\<rparr>"
  by (induction ps arbitrary: t) (simp_all add: pixel_step_def)

lemma embedding_of_data_r_statistics:
  assumes "length data = 4 * (N * N)"
  shows "embedding_of_data_r rnd data = normalizeVector_r rnd (statistics_r rnd data)"
proof -
  have loop: "embedding_loop_r rnd data 0
      \<lparr>redTotal = Fin 0, greenTotal = Fin 0, blueTotal = Fin 0,
       brightnessTotal = Fin 0, brightnessSquares = Fin 0, saturationTotal = Fin 0\<rparr> =
      \<lparr>redTotal = total rnd (map red_of (px data)),
       greenTotal = total rnd (map green_of (px data)),
       blueTotal = total rnd (map blue_of (px data)),
       brightnessTotal = total rnd (map (brightness_r rnd) (px data)),
       brightnessSquares =
         total rnd (map (\<lambda>p. r_mul rnd (brightness_r rnd p) (brightness_r rnd p)) (px data)),
       saturationTotal = total rnd (map (saturation_r rnd) (px data))\<rparr>"
    using embedding_loop_r_fold [OF assms, of 0 rnd]
    by (simp add: foldl_pixel_step px_def pixels_def total_def o_def
        del: embedding_loop_r.simps)
  have pc: "r_mul rnd CANVAS_SIZE CANVAS_SIZE = pixel_count rnd"
    by (simp add: CANVAS_SIZE_def pixel_count_def N_def)
  show ?thesis
    unfolding embedding_of_data_r_def loop pc Let_def
    by (simp add: statistics_r_def mean_red_def mean_green_def mean_blue_def mean_bright_def
        variance_bright_def contrast_r_def mean_sat_def del: embedding_loop_r.simps)
qed

section \<open>The operations of doubles on the numbers of the examples\<close>

text \<open>Each of the rounded operations that the examples below go through, with the
  binade of the exact result and the multiple of the spacing that it rounds to.\<close>

lemma fl_mul_1:
  "r_mul round64 (Fin 1) (Fin 1) = Fin (1)"
  by (rule r_mul_eq, rule round64_pos [where k = "0" and m = 4503599627370496 and p = "1"]) simp_all

lemma fl_add_2:
  "r_add round64 (Fin 0) (Fin 1) = Fin (1)"
  by (rule r_add_eq, rule round64_pos [where k = "0" and m = 4503599627370496 and p = "1"]) simp_all

lemma fl_add_3:
  "r_add round64 (Fin 1) (Fin 1) = Fin (2)"
  by (rule r_add_eq, rule round64_pos [where k = "1" and m = 4503599627370496 and p = "2"]) simp_all

lemma fl_sqrt_4:
  "r_sqrt round64 (Fin (2)) = Fin (6369051672525773 / 4503599627370496)"
  by (rule r_sqrt_eq, rule round64_sqrt_pos [where k = "0" and m = 6369051672525773 and p = "1"]) simp_all

lemma fl_div_5:
  "r_div round64 (Fin 1) (Fin (6369051672525773 / 4503599627370496)) = Fin (1592262918131443 / 2251799813685248)"
  by (rule r_div_eq, rule round64_pos [where k = "-1" and m = 6369051672525772 and p = "1 / 2"]) simp_all

lemma fl_mul_6:
  "r_mul round64 (Fin (1592262918131443 / 2251799813685248)) (Fin (1592262918131443 / 2251799813685248)) = Fin (4503599627370495 / 9007199254740992)"
  by (rule r_mul_eq, rule round64_pos [where k = "-2" and m = 9007199254740990 and p = "1 / 4"]) simp_all

lemma fl_add_7:
  "r_add round64 (Fin 0) (Fin (4503599627370495 / 9007199254740992)) = Fin (4503599627370495 / 9007199254740992)"
  by (rule r_add_eq, rule round64_pos [where k = "-2" and m = 9007199254740990 and p = "1 / 4"]) simp_all

lemma fl_add_8:
  "r_add round64 (Fin (4503599627370495 / 9007199254740992)) (Fin (4503599627370495 / 9007199254740992)) = Fin (4503599627370495 / 4503599627370496)"
  by (rule r_add_eq, rule round64_pos [where k = "-1" and m = 9007199254740990 and p = "1 / 2"]) simp_all

lemma fl_sqrt_9:
  "r_sqrt round64 (Fin (4503599627370495 / 4503599627370496)) = Fin (9007199254740991 / 9007199254740992)"
  by (rule r_sqrt_eq, rule round64_sqrt_pos [where k = "-1" and m = 9007199254740991 and p = "1 / 2"]) simp_all

lemma fl_div_10:
  "r_div round64 (Fin (1592262918131443 / 2251799813685248)) (Fin (9007199254740991 / 9007199254740992)) = Fin (6369051672525773 / 9007199254740992)"
  by (rule r_div_eq, rule round64_pos [where k = "-1" and m = 6369051672525773 and p = "1 / 2"]) simp_all

lemma fl_mul_11:
  "r_mul round64 (Fin (48)) (Fin (48)) = Fin (2304)"
  by (rule r_mul_eq, rule round64_pos [where k = "11" and m = 5066549580791808 and p = "2048"]) simp_all

lemma fl_mul_12:
  "r_mul round64 (Fin (2304)) (Fin (255)) = Fin (587520)"
  by (rule r_mul_eq, rule round64_pos [where k = "19" and m = 5046758371491840 and p = "524288"]) simp_all

lemma fl_add_13:
  "r_add round64 (Fin 0) (Fin (255)) = Fin (255)"
  by (rule r_add_eq, rule round64_pos [where k = "7" and m = 8972014882652160 and p = "128"]) simp_all

lemma fl_add_14:
  "r_add round64 (Fin (255)) (Fin (255)) = Fin (510)"
  by (rule r_add_eq, rule round64_pos [where k = "8" and m = 8972014882652160 and p = "256"]) simp_all

lemma fl_add_15:
  "r_add round64 (Fin (510)) (Fin 0) = Fin (510)"
  by (rule r_add_eq, rule round64_pos [where k = "8" and m = 8972014882652160 and p = "256"]) simp_all

lemma fl_div_16:
  "r_div round64 (Fin (510)) (Fin (587520)) = Fin (2001599834386887 / 2305843009213693952)"
  by (rule r_div_eq, rule round64_pos [where k = "-11" and m = 8006399337547548 and p = "1 / 2048"]) simp_all

lemma fl_add_17:
  "r_add round64 (Fin (510)) (Fin (255)) = Fin (765)"
  by (rule r_add_eq, rule round64_pos [where k = "9" and m = 6729011161989120 and p = "512"]) simp_all

lemma fl_mul_18:
  "r_mul round64 (Fin (3)) (Fin (255)) = Fin (765)"
  by (rule r_mul_eq, rule round64_pos [where k = "9" and m = 6729011161989120 and p = "512"]) simp_all

lemma fl_div_19:
  "r_div round64 (Fin (765)) (Fin (765)) = Fin (1)"
  by (rule r_div_eq, rule round64_pos [where k = "0" and m = 4503599627370496 and p = "1"]) simp_all

lemma fl_add_20:
  "r_add round64 (Fin 0) (Fin 0) = Fin (0)"
  by (simp add: round64_zero)

lemma fl_div_21:
  "r_div round64 (Fin 0) (Fin (765)) = Fin (0)"
  by (simp add: round64_zero)

lemma fl_add_22:
  "r_add round64 (Fin (2)) (Fin 0) = Fin (2)"
  by (rule r_add_eq, rule round64_pos [where k = "1" and m = 4503599627370496 and p = "2"]) simp_all

lemma fl_div_23:
  "r_div round64 (Fin (2)) (Fin (2304)) = Fin (2001599834386887 / 2305843009213693952)"
  by (rule r_div_eq, rule round64_pos [where k = "-11" and m = 8006399337547548 and p = "1 / 2048"]) simp_all

lemma fl_mul_24:
  "r_mul round64 (Fin 0) (Fin 0) = Fin (0)"
  by (simp add: round64_zero)

lemma fl_mul_25:
  "r_mul round64 (Fin (2001599834386887 / 2305843009213693952)) (Fin (2001599834386887 / 2305843009213693952)) = Fin (222399981598543 / 295147905179352825856)"
  by (rule r_mul_eq, rule round64_pos [where k = "-21" and m = 7116799411153376 and p = "1 / 2097152"]) simp_all

lemma fl_sub_26:
  "r_sub round64 (Fin (2001599834386887 / 2305843009213693952)) (Fin (222399981598543 / 295147905179352825856)) = Fin (3999724669061297 / 4611686018427387904)"
  by (rule r_sub_eq, rule round64_pos [where k = "-11" and m = 7999449338122594 and p = "1 / 2048"]) simp_all

lemma fl_sqrt_27:
  "r_sqrt round64 (Fin (3999724669061297 / 4611686018427387904)) = Fin (8488382302693261 / 288230376151711744)"
  by (rule r_sqrt_eq, rule round64_sqrt_pos [where k = "-6" and m = 8488382302693261 and p = "1 / 64"]) simp_all

lemma fl_sub_28:
  "r_sub round64 (Fin (255)) (Fin (255)) = Fin (0)"
  by (simp add: round64_zero r_sub_def)

lemma fl_div_29:
  "r_div round64 (Fin 0) (Fin (255)) = Fin (0)"
  by (simp add: round64_zero)

lemma fl_div_30:
  "r_div round64 (Fin 0) (Fin (2304)) = Fin (0)"
  by (simp add: round64_zero)

lemma fl_add_31:
  "r_add round64 (Fin 0) (Fin (222399981598543 / 295147905179352825856)) = Fin (222399981598543 / 295147905179352825856)"
  by (rule r_add_eq, rule round64_pos [where k = "-21" and m = 7116799411153376 and p = "1 / 2097152"]) simp_all

lemma fl_add_32:
  "r_add round64 (Fin (222399981598543 / 295147905179352825856)) (Fin (222399981598543 / 295147905179352825856)) = Fin (222399981598543 / 147573952589676412928)"
  by (rule r_add_eq, rule round64_pos [where k = "-20" and m = 7116799411153376 and p = "1 / 1048576"]) simp_all

lemma fl_add_33:
  "r_add round64 (Fin (222399981598543 / 147573952589676412928)) (Fin (222399981598543 / 295147905179352825856)) = Fin (667199944795629 / 295147905179352825856)"
  by (rule r_add_eq, rule round64_pos [where k = "-19" and m = 5337599558365032 and p = "1 / 524288"]) simp_all

lemma fl_add_34:
  "r_add round64 (Fin (667199944795629 / 295147905179352825856)) (Fin (222399981598543 / 295147905179352825856)) = Fin (222399981598543 / 73786976294838206464)"
  by (rule r_add_eq, rule round64_pos [where k = "-19" and m = 7116799411153376 and p = "1 / 524288"]) simp_all

lemma fl_mul_35:
  "r_mul round64 (Fin (8488382302693261 / 288230376151711744)) (Fin (8488382302693261 / 288230376151711744)) = Fin (3999724669061297 / 4611686018427387904)"
  by (rule r_mul_eq, rule round64_pos [where k = "-11" and m = 7999449338122594 and p = "1 / 2048"]) simp_all

lemma fl_add_36:
  "r_add round64 (Fin (222399981598543 / 73786976294838206464)) (Fin (3999724669061297 / 4611686018427387904)) = Fin (2006812333955603 / 2305843009213693952)"
  by (rule r_add_eq, rule round64_pos [where k = "-11" and m = 8027249335822412 and p = "1 / 2048"]) simp_all

lemma fl_add_37:
  "r_add round64 (Fin (2006812333955603 / 2305843009213693952)) (Fin 0) = Fin (2006812333955603 / 2305843009213693952)"
  by (rule r_add_eq, rule round64_pos [where k = "-11" and m = 8027249335822412 and p = "1 / 2048"]) simp_all

lemma fl_sqrt_38:
  "r_sqrt round64 (Fin (2006812333955603 / 2305843009213693952)) = Fin (8503119088619173 / 288230376151711744)"
  by (rule r_sqrt_eq, rule round64_sqrt_pos [where k = "-6" and m = 8503119088619173 and p = "1 / 64"]) simp_all

lemma fl_div_39:
  "r_div round64 (Fin (2001599834386887 / 2305843009213693952)) (Fin (8503119088619173 / 288230376151711744)) = Fin (8481033065012369 / 288230376151711744)"
  by (rule r_div_eq, rule round64_pos [where k = "-6" and m = 8481033065012369 and p = "1 / 64"]) simp_all

lemma fl_div_40:
  "r_div round64 (Fin (8488382302693261 / 288230376151711744)) (Fin (8503119088619173 / 288230376151711744)) = Fin (4495794422843441 / 4503599627370496)"
  by (rule r_div_eq, rule round64_pos [where k = "-1" and m = 8991588845686882 and p = "1 / 2"]) simp_all

lemma fl_div_41:
  "r_div round64 (Fin 0) (Fin (8503119088619173 / 288230376151711744)) = Fin (0)"
  by (simp add: round64_zero)

lemma fl_mul_42:
  "r_mul round64 (Fin (8481033065012369 / 288230376151711744)) (Fin (8481033065012369 / 288230376151711744)) = Fin (7985603495112359 / 9223372036854775808)"
  by (rule r_mul_eq, rule round64_pos [where k = "-11" and m = 7985603495112359 and p = "1 / 2048"]) simp_all

lemma fl_add_43:
  "r_add round64 (Fin 0) (Fin (7985603495112359 / 9223372036854775808)) = Fin (7985603495112359 / 9223372036854775808)"
  by (rule r_add_eq, rule round64_pos [where k = "-11" and m = 7985603495112359 and p = "1 / 2048"]) simp_all

lemma fl_add_44:
  "r_add round64 (Fin (7985603495112359 / 9223372036854775808)) (Fin (7985603495112359 / 9223372036854775808)) = Fin (7985603495112359 / 4611686018427387904)"
  by (rule r_add_eq, rule round64_pos [where k = "-10" and m = 7985603495112359 and p = "1 / 1024"]) simp_all

lemma fl_add_45:
  "r_add round64 (Fin (7985603495112359 / 4611686018427387904)) (Fin (7985603495112359 / 9223372036854775808)) = Fin (5989202621334269 / 2305843009213693952)"
  by (rule r_add_eq, rule round64_pos [where k = "-9" and m = 5989202621334269 and p = "1 / 512"]) simp_all

lemma fl_add_46:
  "r_add round64 (Fin (5989202621334269 / 2305843009213693952)) (Fin (7985603495112359 / 9223372036854775808)) = Fin (7985603495112359 / 2305843009213693952)"
  by (rule r_add_eq, rule round64_pos [where k = "-9" and m = 7985603495112359 and p = "1 / 512"]) simp_all

lemma fl_mul_47:
  "r_mul round64 (Fin (4495794422843441 / 4503599627370496)) (Fin (4495794422843441 / 4503599627370496)) = Fin (561000343193013 / 562949953421312)"
  by (rule r_mul_eq, rule round64_pos [where k = "-1" and m = 8976005491088208 and p = "1 / 2"]) simp_all

lemma fl_add_48:
  "r_add round64 (Fin (7985603495112359 / 2305843009213693952)) (Fin (561000343193013 / 562949953421312)) = Fin (9007199254740991 / 9007199254740992)"
  by (rule r_add_eq, rule round64_pos [where k = "-1" and m = 9007199254740991 and p = "1 / 2"]) simp_all

lemma fl_add_49:
  "r_add round64 (Fin (9007199254740991 / 9007199254740992)) (Fin 0) = Fin (9007199254740991 / 9007199254740992)"
  by (rule r_add_eq, rule round64_pos [where k = "-1" and m = 9007199254740991 and p = "1 / 2"]) simp_all

lemma fl_sqrt_50:
  "r_sqrt round64 (Fin (9007199254740991 / 9007199254740992)) = Fin (9007199254740991 / 9007199254740992)"
  by (rule r_sqrt_eq, rule round64_sqrt_pos [where k = "-1" and m = 9007199254740991 and p = "1 / 2"]) simp_all

lemma fl_div_51:
  "r_div round64 (Fin (8481033065012369 / 288230376151711744)) (Fin (9007199254740991 / 9007199254740992)) = Fin (4240516532506185 / 144115188075855872)"
  by (rule r_div_eq, rule round64_pos [where k = "-6" and m = 8481033065012370 and p = "1 / 64"]) simp_all

lemma fl_div_52:
  "r_div round64 (Fin (4495794422843441 / 4503599627370496)) (Fin (9007199254740991 / 9007199254740992)) = Fin (8991588845686883 / 9007199254740992)"
  by (rule r_div_eq, rule round64_pos [where k = "-1" and m = 8991588845686883 and p = "1 / 2"]) simp_all

lemma fl_div_53:
  "r_div round64 (Fin 0) (Fin (9007199254740991 / 9007199254740992)) = Fin (0)"
  by (simp add: round64_zero)

lemma fl_mul_54:
  "r_mul round64 (Fin (8481033065012369 / 288230376151711744)) (Fin (4240516532506185 / 144115188075855872)) = Fin (998200436889045 / 1152921504606846976)"
  by (rule r_mul_eq, rule round64_pos [where k = "-11" and m = 7985603495112360 and p = "1 / 2048"]) simp_all

lemma fl_add_55:
  "r_add round64 (Fin 0) (Fin (998200436889045 / 1152921504606846976)) = Fin (998200436889045 / 1152921504606846976)"
  by (rule r_add_eq, rule round64_pos [where k = "-11" and m = 7985603495112360 and p = "1 / 2048"]) simp_all

lemma fl_add_56:
  "r_add round64 (Fin (998200436889045 / 1152921504606846976)) (Fin (998200436889045 / 1152921504606846976)) = Fin (998200436889045 / 576460752303423488)"
  by (rule r_add_eq, rule round64_pos [where k = "-10" and m = 7985603495112360 and p = "1 / 1024"]) simp_all

lemma fl_add_57:
  "r_add round64 (Fin (998200436889045 / 576460752303423488)) (Fin (998200436889045 / 1152921504606846976)) = Fin (2994601310667135 / 1152921504606846976)"
  by (rule r_add_eq, rule round64_pos [where k = "-9" and m = 5989202621334270 and p = "1 / 512"]) simp_all

lemma fl_add_58:
  "r_add round64 (Fin (2994601310667135 / 1152921504606846976)) (Fin (998200436889045 / 1152921504606846976)) = Fin (998200436889045 / 288230376151711744)"
  by (rule r_add_eq, rule round64_pos [where k = "-9" and m = 7985603495112360 and p = "1 / 512"]) simp_all

lemma fl_mul_59:
  "r_mul round64 (Fin (4495794422843441 / 4503599627370496)) (Fin (8991588845686883 / 9007199254740992)) = Fin (8976005491088209 / 9007199254740992)"
  by (rule r_mul_eq, rule round64_pos [where k = "-1" and m = 8976005491088209 and p = "1 / 2"]) simp_all

lemma fl_add_60:
  "r_add round64 (Fin (998200436889045 / 288230376151711744)) (Fin (8976005491088209 / 9007199254740992)) = Fin (1)"
  by (rule r_add_eq, rule round64_pos [where k = "-1" and m = 9007199254740992 and p = "1 / 2"]) simp_all

lemma fl_add_61:
  "r_add round64 (Fin 1) (Fin 0) = Fin (1)"
  by (rule r_add_eq, rule round64_pos [where k = "0" and m = 4503599627370496 and p = "1"]) simp_all

lemma fl_mul_62:
  "r_mul round64 (Fin (4240516532506185 / 144115188075855872)) (Fin (4240516532506185 / 144115188075855872)) = Fin (7985603495112361 / 9223372036854775808)"
  by (rule r_mul_eq, rule round64_pos [where k = "-11" and m = 7985603495112361 and p = "1 / 2048"]) simp_all

lemma fl_add_63:
  "r_add round64 (Fin 0) (Fin (7985603495112361 / 9223372036854775808)) = Fin (7985603495112361 / 9223372036854775808)"
  by (rule r_add_eq, rule round64_pos [where k = "-11" and m = 7985603495112361 and p = "1 / 2048"]) simp_all

lemma fl_add_64:
  "r_add round64 (Fin (7985603495112361 / 9223372036854775808)) (Fin (7985603495112361 / 9223372036854775808)) = Fin (7985603495112361 / 4611686018427387904)"
  by (rule r_add_eq, rule round64_pos [where k = "-10" and m = 7985603495112361 and p = "1 / 1024"]) simp_all

lemma fl_add_65:
  "r_add round64 (Fin (7985603495112361 / 4611686018427387904)) (Fin (7985603495112361 / 9223372036854775808)) = Fin (5989202621334271 / 2305843009213693952)"
  by (rule r_add_eq, rule round64_pos [where k = "-9" and m = 5989202621334271 and p = "1 / 512"]) simp_all

lemma fl_add_66:
  "r_add round64 (Fin (5989202621334271 / 2305843009213693952)) (Fin (7985603495112361 / 9223372036854775808)) = Fin (7985603495112361 / 2305843009213693952)"
  by (rule r_add_eq, rule round64_pos [where k = "-9" and m = 7985603495112361 and p = "1 / 512"]) simp_all

lemma fl_mul_67:
  "r_mul round64 (Fin (8991588845686883 / 9007199254740992)) (Fin (8991588845686883 / 9007199254740992)) = Fin (4488002745544105 / 4503599627370496)"
  by (rule r_mul_eq, rule round64_pos [where k = "-1" and m = 8976005491088210 and p = "1 / 2"]) simp_all

lemma fl_add_68:
  "r_add round64 (Fin (7985603495112361 / 2305843009213693952)) (Fin (4488002745544105 / 4503599627370496)) = Fin (1)"
  by (rule r_add_eq, rule round64_pos [where k = "0" and m = 4503599627370496 and p = "1"]) simp_all

lemma fl_mul_69:
  "r_mul round64 (Fin (9007199254740991 / 9007199254740992)) (Fin 1) = Fin (9007199254740991 / 9007199254740992)"
  by (rule r_mul_eq, rule round64_pos [where k = "-1" and m = 9007199254740991 and p = "1 / 2"]) simp_all

lemma fl_div_70:
  "r_div round64 (Fin 1) (Fin (9007199254740991 / 9007199254740992)) = Fin (4503599627370497 / 4503599627370496)"
  by (rule r_div_eq, rule round64_pos [where k = "0" and m = 4503599627370497 and p = "1"]) simp_all

lemma fl_mul_71:
  "r_mul round64 (Fin (4503599627370497 / 4503599627370496)) (Fin (100)) = Fin (3518437208883201 / 35184372088832)"
  by (rule r_mul_eq, rule round64_pos [where k = "6" and m = 7036874417766402 and p = "64"]) simp_all

lemmas fl_ops =
  fl_mul_1 fl_add_2 fl_add_3 fl_sqrt_4 fl_div_5 fl_mul_6 fl_add_7 fl_add_8 fl_sqrt_9
  fl_div_10 fl_mul_11 fl_mul_12 fl_add_13 fl_add_14 fl_add_15 fl_div_16 fl_add_17
  fl_mul_18 fl_div_19 fl_add_20 fl_div_21 fl_add_22 fl_div_23 fl_mul_24 fl_mul_25
  fl_sub_26 fl_sqrt_27 fl_sub_28 fl_div_29 fl_div_30 fl_add_31 fl_add_32 fl_add_33
  fl_add_34 fl_mul_35 fl_add_36 fl_add_37 fl_sqrt_38 fl_div_39 fl_div_40 fl_div_41
  fl_mul_42 fl_add_43 fl_add_44 fl_add_45 fl_add_46 fl_mul_47 fl_add_48 fl_add_49
  fl_sqrt_50 fl_div_51 fl_div_52 fl_div_53 fl_mul_54 fl_add_55 fl_add_56 fl_add_57
  fl_add_58 fl_mul_59 fl_add_60 fl_add_61 fl_mul_62 fl_add_63 fl_add_64 fl_add_65
  fl_add_66 fl_mul_67 fl_add_68 fl_mul_69 fl_div_70 fl_mul_71

section \<open>Two computations in doubles\<close>

subsection \<open>Normalizing \<open>[1, 1]\<close> once and twice\<close>

lemma magnitude_ones:
  "magnitude_r round64 [Fin 1, Fin 1] = Fin (6369051672525773 / 4503599627370496)"
  by (simp only: magnitude_r_sq_step foldl.simps sq_step_r_def fl_ops)

lemma normalize_ones:
  "normalizeVector_r round64 [Fin 1, Fin 1] =
     [Fin (1592262918131443 / 2251799813685248), Fin (1592262918131443 / 2251799813685248)]"
proof -
  have "normalizeVector_r round64 [Fin 1, Fin 1] =
          map (\<lambda>value. r_div round64 value (Fin (6369051672525773 / 4503599627370496))) [Fin 1, Fin 1]"
    by (rule normalizeVector_r_Fin [OF magnitude_ones]) simp
  then show ?thesis by (simp only: list.map fl_ops)
qed


lemma magnitude_normalized_ones:
  "magnitude_r round64 [Fin (1592262918131443 / 2251799813685248), Fin (1592262918131443 / 2251799813685248)] =
     Fin (9007199254740991 / 9007199254740992)"
  by (simp only: magnitude_r_sq_step foldl.simps sq_step_r_def fl_ops)

lemma normalize_normalized_ones:
  "normalizeVector_r round64 [Fin (1592262918131443 / 2251799813685248), Fin (1592262918131443 / 2251799813685248)] =
     [Fin (6369051672525773 / 9007199254740992), Fin (6369051672525773 / 9007199254740992)]"
proof -
  have "normalizeVector_r round64 [Fin (1592262918131443 / 2251799813685248), Fin (1592262918131443 / 2251799813685248)] =
          map (\<lambda>value. r_div round64 value (Fin (9007199254740991 / 9007199254740992)))
            [Fin (1592262918131443 / 2251799813685248), Fin (1592262918131443 / 2251799813685248)]"
    by (rule normalizeVector_r_Fin [OF magnitude_normalized_ones]) simp
  then show ?thesis by (simp only: list.map fl_ops)
qed

subsection \<open>The image with two white pixels against its own embedding\<close>

lemma length_concat_blocks:
  "(\<And>k. length (f k) = 4) \<Longrightarrow> length (concat (map f [0..<n])) = 4 * n"
  by (induction n) simp_all

lemma nth_concat_blocks:
  assumes "\<And>k. length (f k) = 4"
  shows "i < n \<Longrightarrow> j < 4 \<Longrightarrow> concat (map f [0..<n]) ! (4 * i + j) = f i ! j"
proof (induction n)
  case 0
  then show ?case by simp
next
  case (Suc n)
  have len: "length (concat (map f [0..<n])) = 4 * n"
    by (rule length_concat_blocks [OF assms])
  show ?case
  proof (cases "i < n")
    case True
    with Suc have "concat (map f [0..<n]) ! (4 * i + j) = f i ! j" by simp
    moreover have "4 * i + j < 4 * n" using True Suc.prems(2) by simp
    ultimately show ?thesis by (simp add: nth_append len)
  next
    case False
    with Suc.prems have "i = n" by simp
    then show ?thesis using Suc.prems(2) by (simp add: nth_append len)
  qed
qed

lemma length_speck_image: "length speck_image = 4 * (N * N)"
  unfolding speck_image_def by (rule length_concat_blocks) simp

lemma pixel_speck_image:
  assumes "k < N * N"
  shows "pixel speck_image k = (if k < 2 then (255, 255, 255) else (0, 0, 0))"
proof -
  let ?f = "\<lambda>k :: nat. if k < 2 then [255, 255, 255, 255 :: uint8] else [0, 0, 0, 255]"
  have l: "\<And>k. length (?f k) = 4" by simp
  have "speck_image ! (4 * k) = ?f k ! 0" "speck_image ! (4 * k + 1) = ?f k ! 1"
    "speck_image ! (4 * k + 2) = ?f k ! 2"
    unfolding speck_image_def
    using nth_concat_blocks [of ?f k "N * N" 0, OF l assms]
      nth_concat_blocks [of ?f k "N * N" 1, OF l assms]
      nth_concat_blocks [of ?f k "N * N" 2, OF l assms]
    by simp_all
  then show ?thesis by (simp add: pixel_def)
qed

lemma two_then_rest:
  "2 \<le> n \<Longrightarrow> map (\<lambda>k. if k < 2 then w else b) [0..<n] = [w, w] @ replicate (n - 2) b"
  by (rule nth_equalityI) (auto simp: nth_append nth_Cons' less_Suc_eq numeral_2_eq_2)

lemma px_speck_image:
  "px speck_image =
     [(Fin 255, Fin 255, Fin 255), (Fin 255, Fin 255, Fin 255)]
       @ replicate (N * N - 2) (Fin 0, Fin 0, Fin 0)"
proof -
  have "pixels speck_image = map (\<lambda>k. if k < 2 then (255, 255, 255) else (0, 0, 0)) [0..<N * N]"
    unfolding pixels_def by (rule map_cong) (simp_all add: pixel_speck_image)
  also have "\<dots> = [(255, 255, 255), (255, 255, 255)] @ replicate (N * N - 2) (0, 0, 0)"
    by (rule two_then_rest) (simp add: N_def)
  finally show ?thesis by (simp add: px_def)
qed

lemma foldl_add_zeros:
  "r_add round64 (Fin x) (Fin 0) = Fin x \<Longrightarrow>
     foldl (r_add round64) (Fin x) (replicate n (Fin 0)) = Fin x"
  by (induction n) simp_all

lemma total_two_then_zeros:
  assumes "r_add round64 (Fin 0) v = Fin x" "r_add round64 (Fin x) v = Fin y"
    "r_add round64 (Fin y) (Fin 0) = Fin y"
  shows "total round64 ([v, v] @ replicate n (Fin 0)) = Fin y"
proof -
  have "foldl (r_add round64) (Fin y) (replicate n (Fin 0)) = Fin y"
    by (rule foldl_add_zeros [OF assms(3)])
  then show ?thesis by (simp only: total_def foldl_append foldl.simps assms)
qed

lemma white_brightness: "brightness_r round64 (Fin 255, Fin 255, Fin 255) = Fin 1"
  by (simp only: brightness_r.simps fl_ops)

lemma black_brightness: "brightness_r round64 (Fin 0, Fin 0, Fin 0) = Fin 0"
  by (simp only: brightness_r.simps fl_ops)

lemma white_saturation: "saturation_r round64 (Fin 255, Fin 255, Fin 255) = Fin 0"
proof -
  have "Math_max [Fin 255, Fin 255, Fin 255] = Fin 255" "Math_min [Fin 255, Fin 255, Fin 255] = Fin 255"
    by (simp_all add: Math_max_def Math_min_def max2_def min2_def)
  moreover have "\<not> is_zero (Fin 255)" by (simp add: is_zero_def)
  ultimately show ?thesis by (simp only: saturation_r.simps if_False fl_ops)
qed

lemma black_saturation: "saturation_r round64 (Fin 0, Fin 0, Fin 0) = Fin 0"
  by (simp add: Math_max_def max2_def is_zero_def)

lemma pixel_count_64: "pixel_count round64 = Fin 2304"
proof -
  have "pixel_count round64 = r_mul round64 (Fin 48) (Fin 48)"
    by (simp add: pixel_count_def N_def)
  then show ?thesis by (simp only: fl_ops)
qed

lemma speck_totals:
  "total round64 (map red_of (px speck_image)) = Fin 510"
  "total round64 (map green_of (px speck_image)) = Fin 510"
  "total round64 (map blue_of (px speck_image)) = Fin 510"
  "total round64 (map (brightness_r round64) (px speck_image)) = Fin 2"
  "total round64 (map (\<lambda>p. r_mul round64 (brightness_r round64 p) (brightness_r round64 p))
     (px speck_image)) = Fin 2"
  "total round64 (map (saturation_r round64) (px speck_image)) = Fin 0"
proof -
  have a: "r_add round64 (Fin 0) (Fin 255) = Fin 255" "r_add round64 (Fin 255) (Fin 255) = Fin 510"
    "r_add round64 (Fin 510) (Fin 0) = Fin 510"
    by (simp_all only: fl_ops)
  have b: "r_add round64 (Fin 0) (Fin 1) = Fin 1" "r_add round64 (Fin 1) (Fin 1) = Fin 2"
    "r_add round64 (Fin 2) (Fin 0) = Fin 2"
    by (simp_all only: fl_ops)
  have z: "r_add round64 (Fin 0) (Fin 0) = Fin 0"
    by (simp only: fl_ops)
  have sq: "r_mul round64 (Fin 1) (Fin 1) = Fin 1" "r_mul round64 (Fin 0) (Fin 0) = Fin 0"
    by (simp_all only: fl_ops)
  show "total round64 (map red_of (px speck_image)) = Fin 510"
    unfolding px_speck_image using total_two_then_zeros [OF a] by simp
  show "total round64 (map green_of (px speck_image)) = Fin 510"
    unfolding px_speck_image using total_two_then_zeros [OF a] by simp
  show "total round64 (map blue_of (px speck_image)) = Fin 510"
    unfolding px_speck_image using total_two_then_zeros [OF a] by simp
  show "total round64 (map (brightness_r round64) (px speck_image)) = Fin 2"
    unfolding px_speck_image using total_two_then_zeros [OF b]
    by (simp add: white_brightness black_brightness del: brightness_r.simps)
  show "total round64 (map (\<lambda>p. r_mul round64 (brightness_r round64 p) (brightness_r round64 p))
     (px speck_image)) = Fin 2"
    unfolding px_speck_image using total_two_then_zeros [OF b]
    by (simp add: white_brightness black_brightness sq del: brightness_r.simps r_mul.simps)
  show "total round64 (map (saturation_r round64) (px speck_image)) = Fin 0"
    unfolding px_speck_image using total_two_then_zeros [OF z z z]
    by (simp add: white_saturation black_saturation del: saturation_r.simps)
qed

lemma statistics_speck_image:
  "statistics_r round64 speck_image =
     [Fin (2001599834386887 / 2305843009213693952),
     Fin (2001599834386887 / 2305843009213693952),
     Fin (2001599834386887 / 2305843009213693952),
     Fin (2001599834386887 / 2305843009213693952),
     Fin (8488382302693261 / 288230376151711744), Fin 0]"
proof -
  have v: "variance_bright round64 speck_image = Fin (3999724669061297 / 4611686018427387904)"
    by (simp only: variance_bright_def mean_bright_def speck_totals pixel_count_64 fl_ops)
  have mx: "Math_max [Fin (3999724669061297 / 4611686018427387904), Fin 0] = Fin (3999724669061297 / 4611686018427387904)"
    by (simp add: Math_max_def max2_def)
  show ?thesis
    by (simp only: statistics_r_def mean_red_def mean_green_def mean_blue_def mean_bright_def
        contrast_r_def mean_sat_def v mx speck_totals pixel_count_64 fl_ops)
qed

lemma magnitude_statistics_speck:
  "magnitude_r round64
     [Fin (2001599834386887 / 2305843009213693952),
     Fin (2001599834386887 / 2305843009213693952),
     Fin (2001599834386887 / 2305843009213693952),
     Fin (2001599834386887 / 2305843009213693952),
     Fin (8488382302693261 / 288230376151711744), Fin 0] =
     Fin (8503119088619173 / 288230376151711744)"
  by (simp only: magnitude_r_sq_step foldl.simps sq_step_r_def fl_ops)

lemma embedding_speck_image:
  "embedding_of_data_r round64 speck_image = speck_embedding"
proof -
  have "normalizeVector_r round64
     [Fin (2001599834386887 / 2305843009213693952),
     Fin (2001599834386887 / 2305843009213693952),
     Fin (2001599834386887 / 2305843009213693952),
     Fin (2001599834386887 / 2305843009213693952),
     Fin (8488382302693261 / 288230376151711744), Fin 0] =
     map (\<lambda>value. r_div round64 value (Fin (8503119088619173 / 288230376151711744)))
     [Fin (2001599834386887 / 2305843009213693952),
     Fin (2001599834386887 / 2305843009213693952),
     Fin (2001599834386887 / 2305843009213693952),
     Fin (2001599834386887 / 2305843009213693952),
     Fin (8488382302693261 / 288230376151711744), Fin 0]"
    by (rule normalizeVector_r_Fin [OF magnitude_statistics_speck]) simp
  then show ?thesis
    unfolding embedding_of_data_r_statistics [OF length_speck_image] statistics_speck_image
      speck_embedding_def
    by (simp only: list.map fl_ops)
qed

lemma magnitude_speck_embedding:
  "magnitude_r round64 speck_embedding = Fin (9007199254740991 / 9007199254740992)"
  unfolding speck_embedding_def
  by (simp only: magnitude_r_sq_step foldl.simps sq_step_r_def fl_ops)

lemma normalize_speck_embedding:
  "normalizeVector_r round64 speck_embedding =
     [Fin (4240516532506185 / 144115188075855872),
     Fin (4240516532506185 / 144115188075855872),
     Fin (4240516532506185 / 144115188075855872),
     Fin (4240516532506185 / 144115188075855872),
     Fin (8991588845686883 / 9007199254740992), Fin 0]"
proof -
  have "normalizeVector_r round64 speck_embedding =
     map (\<lambda>value. r_div round64 value (Fin (9007199254740991 / 9007199254740992))) speck_embedding"
    by (rule normalizeVector_r_Fin [OF magnitude_speck_embedding]) simp
  then show ?thesis
    unfolding speck_embedding_def by (simp only: list.map fl_ops)
qed

lemma cosine_speck:
  "cosineSimilarity_r round64 speck_embedding
     [Fin (4240516532506185 / 144115188075855872),
     Fin (4240516532506185 / 144115188075855872),
     Fin (4240516532506185 / 144115188075855872),
     Fin (4240516532506185 / 144115188075855872),
     Fin (8991588845686883 / 9007199254740992), Fin 0] =
     Fin (4503599627370497 / 4503599627370496)"
proof -
  have l: "length speck_embedding = length
     [Fin (4240516532506185 / 144115188075855872),
     Fin (4240516532506185 / 144115188075855872),
     Fin (4240516532506185 / 144115188075855872),
     Fin (4240516532506185 / 144115188075855872),
     Fin (8991588845686883 / 9007199254740992), Fin 0]"
    by (simp add: speck_embedding_def)
  have ma: "foldl (sq_step_r round64) (Fin 0) speck_embedding = Fin (9007199254740991 / 9007199254740992)"
    unfolding speck_embedding_def by (simp only: foldl.simps sq_step_r_def fl_ops)
  have mb: "foldl (sq_step_r round64) (Fin 0)
     [Fin (4240516532506185 / 144115188075855872),
     Fin (4240516532506185 / 144115188075855872),
     Fin (4240516532506185 / 144115188075855872),
     Fin (4240516532506185 / 144115188075855872),
     Fin (8991588845686883 / 9007199254740992), Fin 0] = Fin 1"
    by (simp only: foldl.simps sq_step_r_def fl_ops)
  have dot: "foldl (r_add round64) (Fin 0) (map (\<lambda>(x, y). r_mul round64 x y) (zip speck_embedding
     [Fin (4240516532506185 / 144115188075855872),
     Fin (4240516532506185 / 144115188075855872),
     Fin (4240516532506185 / 144115188075855872),
     Fin (4240516532506185 / 144115188075855872),
     Fin (8991588845686883 / 9007199254740992), Fin 0])) = Fin 1"
    unfolding speck_embedding_def
    by (simp only: zip_Cons_Cons zip_Nil list.map prod.case foldl.simps fl_ops)
  have nz: "\<not> (is_zero (Fin (9007199254740991 / 9007199254740992)) \<or> is_zero (Fin 1))"
    by (simp add: is_zero_def)
  show ?thesis
    unfolding cosineSimilarity_r_sums [OF l] Let_def ma mb dot
    by (simp only: nz if_False fl_ops)
qed

lemma score_speck:
  "score_entry_r round64 speck_embedding \<lparr>entry_id = 1, embedding = speck_embedding\<rparr> =
     \<lparr>score_id = 1, similarity = Fin (3518437208883201 / 35184372088832)\<rparr>"
proof -
  have "percent_score_r round64 (Fin (4503599627370497 / 4503599627370496)) = Math_max [Fin 0, Fin (3518437208883201 / 35184372088832)]"
    by (simp only: percent_score_r_def fl_ops)
  also have "\<dots> = Fin (3518437208883201 / 35184372088832)" by (simp add: Math_max_def max2_def)
  finally show ?thesis
    by (simp add: score_entry_r_def normalize_speck_embedding cosine_speck)
qed

lemma findSimilarProducts_speck:
  "findSimilarProducts_r round64 demo_doc (Inr speck_image) speck_catalog None =
     Inr [\<lparr>score_id = 1, similarity = Fin (3518437208883201 / 35184372088832)\<rparr>]"
  by (simp add: findSimilarProducts_r_def getImageEmbedding_r_def createCanvas_def demo_doc_def
      embedding_speck_image speck_catalog_def score_speck Array_sort_def Array_slice0_def)
section \<open>Overflow and the sign of a rounded number\<close>

lemma round_even_ge_floor: "\<lfloor>r\<rfloor> \<le> round_even r"
  by (simp add: round_even_def Let_def)

lemma round_even_nonneg: "0 \<le> r \<Longrightarrow> 0 \<le> round_even r"
  using round_even_ge_floor [of r] by (smt (verit) zero_le_floor)

lemma round64_overflow:
  assumes "2 ^ 1024 \<le> x"
  shows "round64 x = PInf"
proof -
  have xpos: "0 < x" using assms by (smt (verit) zero_less_power)
  define k where "k = \<lfloor>log 2 \<bar>x\<bar>\<rfloor>"
  have kb: "2 powr of_int k \<le> \<bar>x\<bar>"
    using xpos unfolding k_def by (smt (verit) floor_log_eq_powr_iff)
  have p1024: "(2::real) powr 1024 = 2 ^ 1024" by simp
  have "(2::real) powr 1024 \<le> x" using assms unfolding p1024 .
  then have "1024 \<le> log 2 x"
    using xpos by (subst le_log_iff) simp_all
  then have k1024: "1024 \<le> k" unfolding k_def using xpos by (simp add: le_floor_iff)
  then have b: "binade x = k" by (simp add: binade_def k_def)
  define q where "q = (2::real) powr of_int (k - 52)"
  have qpos: "0 < q" by (simp add: q_def)
  have kq: "2 powr of_int k = 2 ^ 52 * q"
    by (simp add: q_def powr_diff)
  have "2 ^ 52 \<le> \<bar>x\<bar> / q" using kb qpos by (simp add: kq field_simps)
  then have "(2 ^ 52 :: int) \<le> \<lfloor>\<bar>x\<bar> / q\<rfloor>" by (simp add: le_floor_iff)
  with round_even_ge_floor [of "\<bar>x\<bar> / q"] have "2 ^ 52 \<le> round_even (\<bar>x\<bar> / q)" by linarith
  then have "(2 ^ 52 :: real) \<le> of_int (round_even (\<bar>x\<bar> / q))"
    by (metis of_int_le_iff of_int_numeral of_int_power)
  then have "2 ^ 52 * q \<le> of_int (round_even (\<bar>x\<bar> / q)) * q"
    using qpos by (intro mult_right_mono) simp_all
  moreover have "(2::real) ^ 1024 \<le> 2 powr of_int k"
  proof -
    have "(1024::real) \<le> of_int k" using k1024 by linarith
    then have "(2::real) powr 1024 \<le> 2 powr of_int k" by (intro powr_mono) simp_all
    then show ?thesis unfolding p1024 .
  qed
  ultimately have big: "2 ^ 1024 \<le> of_int (round_even (\<bar>x\<bar> / q)) * q"
    unfolding kq by linarith
  have "x \<noteq> 0" "sgn x = 1" using xpos by simp_all
  then show ?thesis
    unfolding round64_def Let_def b q_def [symmetric] using big
    by (simp only: if_False if_True signed_inf_def) simp
qed

lemma round64_nonpos:
  assumes "x \<le> 0"
  shows "round64 x = NInf \<or> (\<exists>y. round64 x = Fin y \<and> y \<le> 0)"
proof (cases "x = 0")
  case True
  then show ?thesis by (simp add: round64_def)
next
  case False
  with assms have neg: "x < 0" by simp
  then have s: "sgn x = - 1" by simp
  define q where "q = (2::real) powr of_int (binade x - 52)"
  define m where "m = round_even (\<bar>x\<bar> / q)"
  have qpos: "0 < q" by (simp add: q_def)
  then have "0 \<le> \<bar>x\<bar> / q" by simp
  then have "0 \<le> m" unfolding m_def by (rule round_even_nonneg)
  then have mq: "0 \<le> of_int m * q" using qpos by simp
  have r: "round64 x = (if 2 ^ 1024 \<le> of_int m * q then signed_inf (sgn x) else Fin (sgn x * (of_int m * q)))"
    using False unfolding round64_def Let_def q_def m_def by (simp only: if_False)
  show ?thesis
  proof (cases "(2::real) ^ 1024 \<le> of_int m * q")
    case True
    with r s show ?thesis by (simp add: signed_inf_def)
  next
    case False
    with r s mq show ?thesis by simp
  qed
qed

lemma percent_score_r_clamps:
  assumes "c \<le> 0"
  shows "percent_score_r round64 (Fin c) = Fin 0"
proof -
  have "c * 100 \<le> 0" using assms by simp
  from round64_nonpos [OF this] show ?thesis
    by (auto simp: percent_score_r_def Math_max_def max2_def)
qed

lemma magnitude_overflow:
  "magnitude_r round64 [Fin huge, Fin huge] = PInf"
proof -
  have "(2::real) ^ 1024 \<le> huge * huge"
    unfolding huge_def power_add [symmetric] by (rule power_increasing) simp_all
  then have sq: "r_mul round64 (Fin huge) (Fin huge) = PInf"
    by (simp only: r_mul.simps round64_overflow)
  show ?thesis
    by (simp only: magnitude_r_sq_step foldl.simps sq_step_r_def sq r_add.simps r_sqrt.simps)
qed

lemma normalize_overflow:
  "normalizeVector_r round64 [Fin huge, Fin huge] = [Fin 0, Fin 0]"
  using normalizeVector_r_degenerate [of round64 "[Fin huge, Fin huge]"]
  by (simp add: magnitude_overflow zero_vector_def numeral_2_eq_2)
section \<open>The claims about image matching\<close>

lemma Math_sqrt_zero: "Math_sqrt x = Fin 0 \<Longrightarrow> x = Fin 0"
  by (cases x) (simp_all split: if_splits)

lemma magnitude_zero_fold: "magnitude v = Fin 0 \<Longrightarrow> foldl sq_step (Fin 0) v = Fin 0"
  unfolding magnitude_sq_step by (rule Math_sqrt_zero)

lemma cosineSimilarity_zero_magnitude:
  assumes "magnitude (take (min (length a) (length b)) a) = Fin 0
           \<or> magnitude (take (min (length a) (length b)) b) = Fin 0"
  shows "cosineSimilarity a b = Fin 0"
  using assms unfolding cosineSimilarity_alt Let_def
  by (auto simp: is_zero_def dest: magnitude_zero_fold)

lemma percent_score_zero: "percent_score (Fin 0) = Fin 0"
  by (simp add: percent_score_def Math_max_def max2_def)

lemma take_zero_vector: "take k (zero_vector n) = zero_vector (min k n)"
  by (simp add: zero_vector_def)

lemma magnitude_zero_vector: "magnitude (zero_vector n) = Fin 0"
  unfolding zero_vector_def by (rule magnitude_zeros)

lemma cosineSimilarity_zero_vector:
  "a = zero_vector n \<or> b = zero_vector n \<Longrightarrow> cosineSimilarity a b = Fin 0"
  by (rule cosineSimilarity_zero_magnitude) (auto simp: take_zero_vector magnitude_zero_vector)

lemma normalizeVector_zero_vector: "normalizeVector (zero_vector n) = zero_vector n"
  using normalizeVector_degenerate [of "replicate n (Fin 0)"]
  by (simp add: magnitude_zeros is_zero_def zero_vector_def)

lemma findSimilarProducts_Inr:
  assumes "findSimilarProducts doc img catalog topK = Inr res"
  shows "\<exists>data. img = Inr data \<and> getContext_2d doc
           \<and> res = Array_slice0 (ranked data catalog) (limit_of topK)"
  using assms
  by (auto simp: findSimilarProducts_def getImageEmbedding_def createCanvas_def ranked_def
      by_similarity_def [abs_def] limit_of_def split: if_splits sum.splits)

lemma ranked_scores_range: "s \<in> set (ranked data catalog) \<Longrightarrow> in_range 0 100 (similarity s)"
proof -
  assume "s \<in> set (ranked data catalog)"
  then have "s \<in> set (map (score_entry (embedding_of_data data)) catalog)"
    unfolding ranked_def
    using mset_Array_sort [of by_similarity "map (score_entry (embedding_of_data data)) catalog",
        THEN arg_cong, of set_mset]
    by simp
  then show ?thesis using score_entry_range by auto
qed


subsection \<open>In exact arithmetic\<close>



lemma normalizeVector_exact_twice: "normalizeVector (normalizeVector v) = normalizeVector v"
proof -
  from normalizeVector_cases [of v] show ?thesis
  proof
    assume "\<exists>rv. v = map Fin rv \<and> (\<Sum>x\<leftarrow>rv. x * x) \<noteq> 0 \<and> isFinite (magnitude v) \<and> \<not> is_zero (magnitude v)
       \<and> normalizeVector v = map Fin (map (\<lambda>x. x / sqrt (\<Sum>x\<leftarrow>rv. x * x)) rv)"
    then obtain rv where rv: "(\<Sum>x\<leftarrow>rv. x * x) \<noteq> 0"
      "normalizeVector v = map Fin (map (\<lambda>x. x / sqrt (\<Sum>x\<leftarrow>rv. x * x)) rv)" by blast
    let ?u = "map (\<lambda>x. x / sqrt (\<Sum>x\<leftarrow>rv. x * x)) rv"
    have one: "(\<Sum>x\<leftarrow>?u. x * x) = 1" by (rule sum_list_sq_normalized [OF rv(1)])
    then have "(\<Sum>x\<leftarrow>?u. x * x) \<noteq> 0" by simp
    from normalizeVector_regular [OF this] one
    have "normalizeVector (map Fin ?u) = map Fin ?u" by (simp add: o_def)
    with rv(2) show ?thesis by simp
  next
    assume a: "(\<not> isFinite (magnitude v) \<or> is_zero (magnitude v)) \<and> normalizeVector v = replicate (length v) (Fin 0)"
    have "normalizeVector (replicate (length v) (Fin 0)) = replicate (length v) (Fin 0)"
      using normalizeVector_degenerate [of "replicate (length v) (Fin 0)"]
      by (simp add: magnitude_zeros is_zero_def)
    with a show ?thesis by simp
  qed
qed

lemma findSimilarProducts_exact_range:
  assumes "findSimilarProducts doc img catalog topK = Inr res" and "s \<in> set res"
  shows "in_range 0 100 (similarity s)"
proof -
  from findSimilarProducts_Inr [OF assms(1)]
  obtain data where d: "res = Array_slice0 (ranked data catalog) (limit_of topK)"
    by (elim exE conjE)
  from assms(2) have "s \<in> set (Array_slice0 (ranked data catalog) (limit_of topK))"
    unfolding d .
  then have "s \<in> set (ranked data catalog)"
    by (rule subsetD [OF set_Array_slice0])
  then show ?thesis by (rule ranked_scores_range)
qed

subsection \<open>The extractor\<close>

text \<open>
  Claim C1. For every decoded 48 x 48 pixel buffer the extractor returns the normalization
  of the vector of the six statistics, in the order mean red, mean green, mean blue, mean
  brightness, contrast, mean saturation: the three colour means are the channel sums over
  \<open>N\<^sup>2 * 255\<close>, the mean brightness averages \<open>(r + g + b) / (3 * 255)\<close>, the contrast
  is the square root of the brightness variance floored at 0, and the mean saturation
  averages \<open>(max - min) / max\<close>, taken as 0 where \<open>max\<close> is 0. Sums, products,
  quotients and the root are the rounded ones, the sums taken pixel after pixel from the
  left; the equation holds for every rounding \<open>rnd\<close>, so for the doubles of the program
  (\<open>rnd = round64\<close>) and for exact arithmetic (\<open>rnd = Fin\<close>).
\<close>

theorem getImageEmbedding_r_statistics:
  assumes "getContext_2d doc" and "length data = 4 * (N * N)"
  shows "getImageEmbedding_r rnd doc (Inr data)
           = Inr (normalizeVector_r rnd (statistics_r rnd data))"
  using assms
  by (simp add: getImageEmbedding_r_def createCanvas_def embedding_of_data_r_statistics)

theorem getImageEmbedding_r_statistics_witness:
  "getContext_2d demo_doc \<and> length speck_image = 4 * (N * N) \<and>
   statistics_r round64 speck_image =
     [Fin (2001599834386887 / 2305843009213693952),
      Fin (2001599834386887 / 2305843009213693952),
      Fin (2001599834386887 / 2305843009213693952),
      Fin (2001599834386887 / 2305843009213693952),
      Fin (8488382302693261 / 288230376151711744), Fin 0] \<and>
   getImageEmbedding_r round64 demo_doc (Inr speck_image) = Inr speck_embedding"
proof -
  have d: "getContext_2d demo_doc" by (simp add: demo_doc_def)
  have n: "normalizeVector_r round64 (statistics_r round64 speck_image) = speck_embedding"
    using embedding_speck_image
    unfolding embedding_of_data_r_statistics [OF length_speck_image] .
  from getImageEmbedding_r_statistics [OF d length_speck_image, of round64]
  have "getImageEmbedding_r round64 demo_doc (Inr speck_image) = Inr speck_embedding"
    unfolding n .
  with d length_speck_image statistics_speck_image show ?thesis by (intro conjI)
qed

subsection \<open>The normalizer\<close>




text \<open>
  Claim C8, as stated: applying the normalizer twice gives what applying it once gives,
  for every vector. In doubles the normalization of \<open>[1, 1]\<close> is
  \<open>[0.7071067811865475, 0.7071067811865475]\<close> and the normalization of that vector is
  \<open>[0.7071067811865476, 0.7071067811865476]\<close>.
\<close>

theorem normalizeVector_twice_counterexample:
  "normalizeVector_r round64 [Fin 1, Fin 1] =
     [Fin (1592262918131443 / 2251799813685248), Fin (1592262918131443 / 2251799813685248)] \<and>
   normalizeVector_r round64 (normalizeVector_r round64 [Fin 1, Fin 1]) =
     [Fin (6369051672525773 / 9007199254740992), Fin (6369051672525773 / 9007199254740992)] \<and>
   normalizeVector_r round64 (normalizeVector_r round64 [Fin 1, Fin 1])
     \<noteq> normalizeVector_r round64 [Fin 1, Fin 1]"
  by (simp add: normalize_ones normalize_normalized_ones)

text \<open>
  Claim C8, amended. With exact arithmetic in place of doubles, applying the normalizer
  twice gives what applying it once gives, for every vector. In doubles the normalizer
  maps an all-zero vector to itself, and normalizing twice gives what normalizing once
  gives for every vector whose computed magnitude is 0 or not finite.
\<close>

theorem normalizeVector_twice:
  "normalizeVector_r Fin (normalizeVector_r Fin v) = normalizeVector_r Fin v \<and>
   normalizeVector_r round64 (zero_vector n) = zero_vector n \<and>
   (\<not> isFinite (magnitude_r round64 w) \<or> is_zero (magnitude_r round64 w) \<longrightarrow>
      normalizeVector_r round64 (normalizeVector_r round64 w) = normalizeVector_r round64 w)"
proof (intro conjI impI)
  show "normalizeVector_r Fin (normalizeVector_r Fin v) = normalizeVector_r Fin v"
    unfolding normalizeVector_r_exact by (rule normalizeVector_exact_twice)
next
  show z: "normalizeVector_r round64 (zero_vector n) = zero_vector n" for n
    by (rule normalizeVector_r_zero_vector) (rule round64_zero)
  assume "\<not> isFinite (magnitude_r round64 w) \<or> is_zero (magnitude_r round64 w)"
  then have "normalizeVector_r round64 w = zero_vector (length w)"
    by (rule normalizeVector_r_degenerate)
  then show "normalizeVector_r round64 (normalizeVector_r round64 w) = normalizeVector_r round64 w"
    by (simp add: z)
qed

theorem normalizeVector_twice_witness:
  "normalizeVector_r Fin [Fin 3, Fin 4] = [Fin (3/5), Fin (4/5)] \<and>
   normalizeVector_r Fin [Fin (3/5), Fin (4/5)] = [Fin (3/5), Fin (4/5)] \<and>
   normalizeVector_r round64 [Fin 0, Fin 0] = [Fin 0, Fin 0] \<and>
   normalizeVector_r round64 [Fin huge, Fin huge] = [Fin 0, Fin 0] \<and>
   normalizeVector_r round64 (normalizeVector_r round64 [Fin huge, Fin huge]) = [Fin 0, Fin 0]"
proof -
  have n: "normalizeVector_r Fin [Fin 3, Fin 4] = [Fin (3/5), Fin (4/5)]"
    by (simp add: normalizeVector_r_def magnitude_r_def is_zero_def sqrt25)
  have h: "\<not> isFinite (magnitude_r round64 [Fin huge, Fin huge])
              \<or> is_zero (magnitude_r round64 [Fin huge, Fin huge])"
    unfolding magnitude_overflow by simp
  have z: "zero_vector 2 = [Fin 0, Fin 0]"
    by (simp add: zero_vector_def numeral_2_eq_2)
  from normalizeVector_twice [of "[Fin 3, Fin 4]" 2 "[Fin huge, Fin huge]"] h
  have a: "normalizeVector_r Fin (normalizeVector_r Fin [Fin 3, Fin 4]) = normalizeVector_r Fin [Fin 3, Fin 4]"
    and b: "normalizeVector_r round64 (zero_vector 2) = zero_vector 2"
    and c: "normalizeVector_r round64 (normalizeVector_r round64 [Fin huge, Fin huge])
              = normalizeVector_r round64 [Fin huge, Fin huge]"
    by blast+
  from a have 2: "normalizeVector_r Fin [Fin (3/5), Fin (4/5)] = [Fin (3/5), Fin (4/5)]"
    unfolding n .
  from b have 3: "normalizeVector_r round64 [Fin 0, Fin 0] = [Fin 0, Fin 0]"
    unfolding z .
  from c have 5: "normalizeVector_r round64 (normalizeVector_r round64 [Fin huge, Fin huge]) = [Fin 0, Fin 0]"
    by (simp only: normalize_overflow)
  from n 2 3 normalize_overflow 5 show ?thesis by (intro conjI)
qed

subsection \<open>The scores\<close>

text \<open>
  Claim C3, as stated: every score of the ranker lies in \<open>[0, 100]\<close> and the cosine
  similarity lies in \<open>[-1, 1]\<close>. In doubles the image that is black but for two white
  pixels, ranked against a catalog entry that stores the embedding of that same image,
  has the cosine similarity \<open>1.0000000000000002\<close> and the score \<open>100.00000000000003\<close>.
\<close>

theorem ranker_score_counterexample:
  "getImageEmbedding_r round64 demo_doc (Inr speck_image) = Inr speck_embedding \<and>
   cosineSimilarity_r round64 speck_embedding (normalizeVector_r round64 speck_embedding)
     = Fin (4503599627370497 / 4503599627370496) \<and>
   \<not> in_range (- 1) 1 (Fin (4503599627370497 / 4503599627370496)) \<and>
   findSimilarProducts_r round64 demo_doc (Inr speck_image) speck_catalog None
     = Inr [\<lparr>score_id = 1, similarity = Fin (3518437208883201 / 35184372088832)\<rparr>] \<and>
   \<not> in_range 0 100 (Fin (3518437208883201 / 35184372088832))"
proof -
  have g: "getImageEmbedding_r round64 demo_doc (Inr speck_image) = Inr speck_embedding"
    by (simp add: getImageEmbedding_r_def createCanvas_def demo_doc_def embedding_speck_image)
  have c: "cosineSimilarity_r round64 speck_embedding (normalizeVector_r round64 speck_embedding)
             = Fin (4503599627370497 / 4503599627370496)"
    unfolding normalize_speck_embedding by (rule cosine_speck)
  have r1: "\<not> in_range (- 1) 1 (Fin (4503599627370497 / 4503599627370496))"
    by (simp add: in_range_def)
  have r2: "\<not> in_range 0 100 (Fin (3518437208883201 / 35184372088832))"
    by (simp add: in_range_def)
  from g c r1 findSimilarProducts_speck r2 show ?thesis by (intro conjI)
qed

text \<open>
  Claim C3, amended. No score is below 0, whatever the rounding: the score is
  \<open>max(0, similarity * 100)\<close>, which in doubles is 0 for every similarity that is
  negative, \<open>-Infinity\<close> included, or 0, and no entry of a result of the ranker has a
  score below 0. With exact
  arithmetic in place of doubles, the cosine similarity of two finite vectors, taken
  over the shorter of the two lengths, lies in \<open>[-1, 1]\<close>, that of two normalized vectors
  too, and every score of the ranker lies in \<open>[0, 100]\<close>.
\<close>

theorem similarity_score_bounds:
  "not_negative (percent_score_r rnd c) \<and>
   (x \<le> 0 \<longrightarrow> percent_score_r round64 (Fin x) = Fin 0) \<and>
   percent_score_r round64 NInf = Fin 0 \<and>
   (findSimilarProducts_r rnd doc img catalog topK = Inr res \<longrightarrow>
      (\<forall>s\<in>set res. not_negative (similarity s))) \<and>
   in_range (- 1) 1 (cosineSimilarity_r Fin (map Fin ra) (map Fin rb)) \<and>
   in_range (- 1) 1 (cosineSimilarity_r Fin (normalizeVector_r Fin q) (normalizeVector_r Fin e)) \<and>
   in_range 0 100
     (percent_score_r Fin (cosineSimilarity_r Fin (normalizeVector_r Fin q) (normalizeVector_r Fin e))) \<and>
   (findSimilarProducts_r Fin doc img catalog topK = Inr res' \<longrightarrow>
      (\<forall>s\<in>set res'. in_range 0 100 (similarity s)))"
proof (intro conjI impI ballI)
  show "not_negative (percent_score_r rnd c)" by (rule percent_score_r_not_negative)
next
  assume "x \<le> 0"
  then show "percent_score_r round64 (Fin x) = Fin 0" by (rule percent_score_r_clamps)
next
  show "percent_score_r round64 NInf = Fin 0"
    by (simp add: percent_score_r_def Math_max_def max2_def signed_inf_def)
next
  fix s
  assume "findSimilarProducts_r rnd doc img catalog topK = Inr res" and "s \<in> set res"
  then show "not_negative (similarity s)" by (rule findSimilarProducts_r_not_negative)
next
  show "in_range (- 1) 1 (cosineSimilarity_r Fin (map Fin ra) (map Fin rb))"
    unfolding cosineSimilarity_r_exact by (rule cosineSimilarity_Fin_range)
next
  show "in_range (- 1) 1 (cosineSimilarity_r Fin (normalizeVector_r Fin q) (normalizeVector_r Fin e))"
    unfolding cosineSimilarity_r_exact normalizeVector_r_exact
    using normalized_score_range [of q e] by (rule conjunct1)
next
  show "in_range 0 100
     (percent_score_r Fin (cosineSimilarity_r Fin (normalizeVector_r Fin q) (normalizeVector_r Fin e)))"
    unfolding cosineSimilarity_r_exact normalizeVector_r_exact percent_score_r_exact
    using normalized_score_range [of q e] by (rule conjunct2)
next
  fix s
  assume "findSimilarProducts_r Fin doc img catalog topK = Inr res'" and "s \<in> set res'"
  then show "in_range 0 100 (similarity s)"
    unfolding findSimilarProducts_r_exact by (rule findSimilarProducts_exact_range)
qed

theorem similarity_score_bounds_witness:
  "findSimilarProducts_r round64 demo_doc (Inr speck_image) speck_catalog None
     = Inr [\<lparr>score_id = 1, similarity = Fin (3518437208883201 / 35184372088832)\<rparr>] \<and>
   not_negative (Fin (3518437208883201 / 35184372088832)) \<and>
   (- 1 / 2 :: real) \<le> 0 \<and> percent_score_r round64 (Fin (- 1 / 2)) = Fin 0 \<and>
   findSimilarProducts_r Fin demo_doc (Inr white_image) demo_catalog (Some 2)
     = Inr [\<lparr>score_id = 3, similarity = Fin 100\<rparr>, \<lparr>score_id = 2, similarity = Fin 70\<rparr>] \<and>
   in_range 0 100 (Fin 100) \<and> in_range 0 100 (Fin 70)"
proof -
  let ?sp = "[\<lparr>score_id = 1, similarity = Fin (3518437208883201 / 35184372088832)\<rparr>]"
  let ?res = "[\<lparr>score_id = 3, similarity = Fin 100\<rparr>, \<lparr>score_id = 2, similarity = Fin 70\<rparr>]"
  have ex: "findSimilarProducts_r Fin demo_doc (Inr white_image) demo_catalog (Some 2) = Inr ?res"
    unfolding findSimilarProducts_r_exact by (rule findSimilarProducts_demo)
  from similarity_score_bounds [of round64 NaN "- 1 / 2" demo_doc "Inr speck_image" speck_catalog
      None ?sp "[]" "[]" "[]" "[]" "[]"]
  have a: "(- 1 / 2 :: real) \<le> 0 \<longrightarrow> percent_score_r round64 (Fin (- 1 / 2)) = Fin 0"
    and b: "findSimilarProducts_r round64 demo_doc (Inr speck_image) speck_catalog None = Inr ?sp \<longrightarrow>
      (\<forall>s\<in>set ?sp. not_negative (similarity s))"
    by blast+
  from similarity_score_bounds [of Fin NaN 0 demo_doc "Inr white_image" demo_catalog
      "Some 2" "[]" "[]" "[]" "[]" "[]" ?res]
  have c: "findSimilarProducts_r Fin demo_doc (Inr white_image) demo_catalog (Some 2) = Inr ?res \<longrightarrow>
      (\<forall>s\<in>set ?res. in_range 0 100 (similarity s))"
    by blast
  from a have 1: "percent_score_r round64 (Fin (- 1 / 2)) = Fin 0" by simp
  from b findSimilarProducts_speck have "\<forall>s\<in>set ?sp. not_negative (similarity s)" by blast
  then have 2: "not_negative (Fin (3518437208883201 / 35184372088832))" by simp
  from c ex have "\<forall>s\<in>set ?res. in_range 0 100 (similarity s)" by blast
  then have 3: "in_range 0 100 (Fin 100)" "in_range 0 100 (Fin 70)" by simp_all
  have 4: "(- 1 / 2 :: real) \<le> 0" by simp
  from findSimilarProducts_speck 2 4 1 ex 3 show ?thesis by (intro conjI)
qed

subsection \<open>The ranker\<close>




subsection \<open>Operands of magnitude 0\<close>

text \<open>
  Claim C5. When one of the two operands has magnitude 0 over the shared prefix, the
  similarity is 0 and so is the score; in particular when one operand is an all-zero
  vector, and when the stored embedding of a catalog entry is all-zero. The result is a
  number in every case.
\<close>

theorem zero_magnitude_scores_zero:
  "(magnitude (take (min (length a) (length b)) a) = Fin 0
      \<or> magnitude (take (min (length a) (length b)) b) = Fin 0
      \<longrightarrow> cosineSimilarity a b = Fin 0 \<and> percent_score (cosineSimilarity a b) = Fin 0) \<and>
   (a = zero_vector n \<or> b = zero_vector n
      \<longrightarrow> cosineSimilarity a b = Fin 0 \<and> percent_score (cosineSimilarity a b) = Fin 0) \<and>
   (embedding entry = zero_vector n \<longrightarrow> similarity (score_entry q entry) = Fin 0)"
proof -
  have "embedding entry = zero_vector n \<longrightarrow> similarity (score_entry q entry) = Fin 0"
    using cosineSimilarity_zero_vector [where a = q and b = "zero_vector n" and n = n]
    by (auto simp: score_entry_def normalizeVector_zero_vector percent_score_zero)
  then show ?thesis
    using cosineSimilarity_zero_magnitude [of a b] cosineSimilarity_zero_vector [of a n b]
    by (auto simp: percent_score_zero)
qed

theorem zero_magnitude_scores_zero_witness:
  "magnitude (take (min (length [Fin 0, Fin 0]) (length [Fin 1, Fin 2, NaN])) [Fin 0, Fin 0]) = Fin 0 \<and>
   cosineSimilarity [Fin 0, Fin 0] [Fin 1, Fin 2, NaN] = Fin 0 \<and>
   percent_score (cosineSimilarity [Fin 0, Fin 0] [Fin 1, Fin 2, NaN]) = Fin 0 \<and>
   similarity (score_entry [Fin (1/2), Fin (1/2)] \<lparr>entry_id = 7, embedding = zero_vector 6\<rparr>) = Fin 0"
proof -
  have m: "magnitude (take (min (length [Fin 0, Fin 0]) (length [Fin 1, Fin 2, NaN])) [Fin 0, Fin 0]) = Fin 0"
    by (simp add: magnitude_def)
  have e: "embedding \<lparr>entry_id = 7, embedding = zero_vector 6\<rparr> = zero_vector 6" by simp
  from zero_magnitude_scores_zero [of "[Fin 0, Fin 0]" "[Fin 1, Fin 2, NaN]" 6
      "\<lparr>entry_id = 7, embedding = zero_vector 6\<rparr>" "[Fin (1/2), Fin (1/2)]"] m e
  show ?thesis by blast
qed

section \<open>Query parameters and the example URLs\<close>

lemma sp_has_append: "sp_has k (ps @ qs) = (sp_has k ps \<or> sp_has k qs)"
  by (auto simp: sp_has_def map_add_Some_iff)

lemma sp_has_single: "sp_has k [(k', v)] = (k = k')"
  by (auto simp: sp_has_def)

lemma sp_set_missing: "\<not> sp_has k ps \<Longrightarrow> sp_set k v ps = ps @ [(k, v)]"
  by (simp add: sp_set_def)

lemma with_cdn_params_append: "with_cdn_params ps = ps @ missing_defaults ps"
  by (simp add: with_cdn_params_def missing_defaults_def cdn_defaults_def Let_def
      sp_set_missing sp_has_append sp_has_single)

lemma sp_has_iff: "sp_has k ps = (k \<in> fst ` set ps)"
  by (simp add: sp_has_def map_of_eq_None_iff)

lemma sp_has_with_defaults:
  "k \<in> {''auto'', ''fit'', ''fm''} \<Longrightarrow> sp_has k (ps @ missing_defaults ps)"
  unfolding sp_has_iff missing_defaults_def cdn_defaults_def by auto

lemma missing_defaults_fresh: "(k, v) \<in> set (missing_defaults ps) \<Longrightarrow> \<not> sp_has k ps"
  by (auto simp: missing_defaults_def)

lemma sp_getAll_kept:
  assumes "sp_has k ps"
  shows "sp_getAll k (ps @ missing_defaults ps) = sp_getAll k ps"
proof -
  have "filter (\<lambda>p. fst p = k) (missing_defaults ps) = []"
    using assms missing_defaults_fresh [of k _ ps] by (auto simp: filter_empty_conv)
  then show ?thesis by (simp add: sp_getAll_def)
qed

lemma sp_get_kept:
  assumes "sp_has k ps"
  shows "sp_get k (ps @ missing_defaults ps) = sp_get k ps"
  using assms by (auto simp: sp_get_def sp_has_def map_add_def split: option.splits)

lemma not_wrapped_unsplash:
  "hostname parsed = ''images.unsplash.com'' \<Longrightarrow> wrapped_image_url parsed = None"
  by (simp add: wrapped_image_url_def)

lemma demo_shorter:
  "\<forall>s u v. new_URL demo_platform s = Some u \<longrightarrow> sp_get ''imgurl'' (searchParams u) = Some v
       \<longrightarrow> length v < length s"
  by (auto simp: demo_platform_def demo_new_URL_def sp_get_def split: if_splits)

lemma demo_normalize_cdn:
  "normalizeImageUrl demo_platform ''https://images.unsplash.com/photo-1?fit=max''
     = Some ''https://images.unsplash.com/photo-1?fit=max&auto=format&fm=jpg''"
  by (subst normalizeImageUrl.simps)
     (simp add: demo_platform_def demo_new_URL_def wrapped_image_url_def cdn_or_unchanged_def
       with_cdn_params_def sp_has_def sp_set_def demo_toString_def)

lemma demo_normalize_wrapper:
  "normalizeImageUrl demo_platform
     ''https://www.google.com/imgres?imgurl=https://images.unsplash.com/photo-1?fit=max''
     = Some ''https://images.unsplash.com/photo-1?fit=max&auto=format&fm=jpg''"
proof -
  let ?w = "\<lparr>protocol = ''https:'', hostname = ''www.google.com'', pathname = ''/imgres'',
              searchParams = [(''imgurl'', ''https://images.unsplash.com/photo-1?fit=max'')]\<rparr>"
  have p: "new_URL demo_platform
      ''https://www.google.com/imgres?imgurl=https://images.unsplash.com/photo-1?fit=max'' = Some ?w"
    by (simp add: demo_platform_def demo_new_URL_def)
  have w: "wrapped_image_url ?w = Some ''https://images.unsplash.com/photo-1?fit=max''"
    by (simp add: wrapped_image_url_def sp_get_def)
  show ?thesis
    by (subst normalizeImageUrl.simps) (simp only: p w option.case demo_normalize_cdn)
qed


section \<open>The branches of the proxy handler\<close>

lemma NextResponse_json_ok:
  "json_status_ok st \<Longrightarrow> NextResponse_json message st = Inr (json_response st message)"
  by (auto simp: NextResponse_json_def json_status_ok_def json_response_def)

lemma NextResponse_json_throws:
  "\<not> json_status_ok st \<Longrightarrow> \<exists>e. NextResponse_json message st = Inl e"
  by (auto simp: NextResponse_json_def json_status_ok_def)

lemma NextResponse_json_400: "NextResponse_json message 400 = Inr (json_response 400 message)"
  by (rule NextResponse_json_ok) (simp add: json_status_ok_def)

lemma NextResponse_json_502: "NextResponse_json message 502 = Inr (json_response 502 message)"
  by (rule NextResponse_json_ok) (simp add: json_status_ok_def)

lemma truthy_iff: "truthy target = (\<exists>t. target = Some t \<and> t \<noteq> [])"
  by (cases target) (simp_all add: truthy_def)

lemma GET_missing:
  "target = None \<or> target = Some [] \<Longrightarrow>
     GET env target = Some (Inr (json_response 400 ''Missing url query parameter''), [])"
  by (auto simp: GET_def truthy_def NextResponse_json_400)

lemma GET_invalid:
  "t \<noteq> [] \<Longrightarrow> normalizeImageUrl env t = Some n \<Longrightarrow> new_URL env n = None \<Longrightarrow>
     GET env (Some t) = Some (Inr (json_response 400 ''Invalid URL supplied''), [])"
  by (simp add: GET_def truthy_def NextResponse_json_400)

lemma GET_protocol:
  "t \<noteq> [] \<Longrightarrow> normalizeImageUrl env t = Some n \<Longrightarrow> new_URL env n = Some u \<Longrightarrow>
   protocol u \<noteq> ''http:'' \<Longrightarrow> protocol u \<noteq> ''https:'' \<Longrightarrow>
     GET env (Some t)
       = Some (Inr (json_response 400 ''Only http and https protocols are allowed''), [])"
  by (simp add: GET_def truthy_def NextResponse_json_400 ALLOWED_PROTOCOLS_def)

lemma GET_valid:
  "t \<noteq> [] \<Longrightarrow> normalizeImageUrl env t = Some n \<Longrightarrow> new_URL env n = Some u \<Longrightarrow>
   protocol u = ''http:'' \<or> protocol u = ''https:'' \<Longrightarrow>
     GET env (Some t) = Some (proxy_fetch env u, [toString env u])"
  by (auto simp: GET_def truthy_def ALLOWED_PROTOCOLS_def)

lemma GET_fetched:
  assumes "GET env target = Some (r, fetched)" "fetched \<noteq> []"
  shows "\<exists>t n u. target = Some t \<and> t \<noteq> [] \<and> normalizeImageUrl env t = Some n
           \<and> new_URL env n = Some u \<and> (protocol u = ''http:'' \<or> protocol u = ''https:'')
           \<and> fetched = [toString env u]"
  using assms
  by (auto simp: GET_def truthy_iff ALLOWED_PROTOCOLS_def split: if_splits option.splits)

lemma proxy_fetch_failed:
  assumes "fetch env (toString env u) = Inr up" "\<not> ok up \<or> up_body up = None"
  shows "proxy_fetch env u =
     (let st = (if up_status up = 0 then 502 else up_status up) in
      if json_status_ok st then Inr (json_response st ''Failed to fetch remote image'')
      else Inr (json_response 502 ''Unexpected proxy failure''))"
proof -
  let ?st = "if up_status up = 0 then 502 else up_status up"
  show ?thesis
  proof (cases "json_status_ok ?st")
    case True
    from NextResponse_json_ok [OF this, of "''Failed to fetch remote image''"] True assms
    show ?thesis by (auto simp: proxy_fetch_def Let_def)
  next
    case False
    from NextResponse_json_throws [OF this, of "''Failed to fetch remote image''"]
    obtain e where "NextResponse_json ''Failed to fetch remote image'' ?st = Inl e" by blast
    with False assms show ?thesis
      by (auto simp: proxy_fetch_def Let_def NextResponse_json_502)
  qed
qed

lemma proxy_fetch_threw:
  "fetch env (toString env u) = Inl e \<Longrightarrow>
     proxy_fetch env u = Inr (json_response 502 ''Unexpected proxy failure'')"
  by (simp add: proxy_fetch_def NextResponse_json_502)

lemma demo_GET_404:
  "GET demo_platform (Some ''http://example.com/missing.png'')
     = Some (Inr (json_response 404 ''Failed to fetch remote image''), [''http://example.com/missing.png''])"
proof -
  let ?u = "\<lparr>protocol = ''http:'', hostname = ''example.com'', pathname = ''/missing.png'',
              searchParams = []\<rparr>"
  have p: "new_URL demo_platform ''http://example.com/missing.png'' = Some ?u"
    by (simp add: demo_platform_def demo_new_URL_def)
  have n: "normalizeImageUrl demo_platform ''http://example.com/missing.png''
             = Some ''http://example.com/missing.png''"
    by (subst normalizeImageUrl.simps)
       (simp add: p wrapped_image_url_def cdn_or_unchanged_def)
  have s: "toString demo_platform ?u = ''http://example.com/missing.png''"
    by (simp add: demo_platform_def demo_toString_def)
  have f: "fetch demo_platform ''http://example.com/missing.png''
      = Inr \<lparr>ok = False, up_status = 404, up_body = Some [], content_type = Some ''text/html'',
             content_length = None\<rparr>"
    by (simp add: demo_platform_def demo_fetch_def)
  have "proxy_fetch demo_platform ?u = Inr (json_response 404 ''Failed to fetch remote image'')"
    using proxy_fetch_failed [of demo_platform ?u, unfolded s, OF f]
    by (simp add: json_status_ok_def)
  with GET_valid [of "''http://example.com/missing.png''" demo_platform, OF _ n p] s
  show ?thesis by simp
qed

lemma demo_normalize_empty: "normalizeImageUrl demo_platform [] = Some []"
  by (subst normalizeImageUrl.simps) (simp add: demo_platform_def demo_new_URL_def)

lemma demo_normalize_ftp:
  "normalizeImageUrl demo_platform ''ftp://example.com/a.png'' = Some ''ftp://example.com/a.png''"
  by (subst normalizeImageUrl.simps)
     (simp add: demo_platform_def demo_new_URL_def wrapped_image_url_def cdn_or_unchanged_def)

lemma demo_normalize_junk:
  "normalizeImageUrl demo_platform ''not a url'' = Some ''not a url''"
  by (subst normalizeImageUrl.simps) (simp add: demo_platform_def demo_new_URL_def)


lemma demo_GET_unreachable:
  "GET demo_platform (Some ''http://unreachable.invalid/x.png'')
     = Some (Inr (json_response 502 ''Unexpected proxy failure''), [''http://unreachable.invalid/x.png''])"
proof -
  let ?u = "\<lparr>protocol = ''http:'', hostname = ''unreachable.invalid'', pathname = ''/x.png'',
              searchParams = []\<rparr>"
  have p: "new_URL demo_platform ''http://unreachable.invalid/x.png'' = Some ?u"
    by (simp add: demo_platform_def demo_new_URL_def)
  have n: "normalizeImageUrl demo_platform ''http://unreachable.invalid/x.png''
             = Some ''http://unreachable.invalid/x.png''"
    by (subst normalizeImageUrl.simps)
       (simp add: p wrapped_image_url_def cdn_or_unchanged_def)
  have s: "toString demo_platform ?u = ''http://unreachable.invalid/x.png''"
    by (simp add: demo_platform_def demo_toString_def)
  have f: "fetch demo_platform ''http://unreachable.invalid/x.png'' = Inl TypeError"
    by (simp add: demo_platform_def demo_fetch_def)
  have "proxy_fetch demo_platform ?u = Inr (json_response 502 ''Unexpected proxy failure'')"
    using proxy_fetch_threw [of demo_platform ?u, unfolded s, OF f] .
  with GET_valid [of "''http://unreachable.invalid/x.png''" demo_platform, OF _ n p] s
  show ?thesis by simp
qed

section \<open>The claims about the URL normalizer and the proxy\<close>

text \<open>
  Claim C6, as stated: when the \<open>url\<close> parameter is absent the proxy answers 400
  \<open>Missing url query parameter\<close>, and otherwise, when the normalized parameter does not
  parse, 400 \<open>Invalid URL supplied\<close>. A parameter that is present and empty
  (\<open>?url=\<close>) does not parse, and the proxy answers \<open>Missing url query parameter\<close>: the
  first check is \<open>!target\<close>, which the empty string passes too.
\<close>

theorem proxy_empty_parameter_counterexample:
  "normalizeImageUrl demo_platform [] = Some [] \<and> new_URL demo_platform [] = None \<and>
   GET demo_platform (Some []) = Some (Inr (json_response 400 ''Missing url query parameter''), []) \<and>
   GET demo_platform (Some []) \<noteq> Some (Inr (json_response 400 ''Invalid URL supplied''), [])"
proof -
  have "GET demo_platform (Some [])
          = Some (Inr (json_response 400 ''Missing url query parameter''), [])"
    by (rule GET_missing) simp
  moreover have "new_URL demo_platform [] = None"
    by (simp add: demo_platform_def demo_new_URL_def)
  ultimately show ?thesis by (simp add: demo_normalize_empty json_response_def)
qed

text \<open>
  Claim C6, amended. When the \<open>url\<close> parameter is absent or empty the proxy answers 400
  \<open>Missing url query parameter\<close>; else when the normalized parameter does not parse as a
  URL, 400 \<open>Invalid URL supplied\<close>; else when the scheme of the parsed URL is neither
  \<open>http:\<close> nor \<open>https:\<close>, 400 \<open>Only http and https protocols are allowed\<close>. In these
  three cases nothing is fetched, and whenever something is fetched all three checks have
  passed.
\<close>

theorem proxy_validation_order:
  "(target = None \<or> target = Some [] \<longrightarrow>
      GET env target = Some (Inr (json_response 400 ''Missing url query parameter''), [])) \<and>
   (target = Some t \<and> t \<noteq> [] \<and> normalizeImageUrl env t = Some n \<and> new_URL env n = None \<longrightarrow>
      GET env target = Some (Inr (json_response 400 ''Invalid URL supplied''), [])) \<and>
   (target = Some t \<and> t \<noteq> [] \<and> normalizeImageUrl env t = Some n \<and> new_URL env n = Some u \<and>
    protocol u \<noteq> ''http:'' \<and> protocol u \<noteq> ''https:'' \<longrightarrow>
      GET env target
        = Some (Inr (json_response 400 ''Only http and https protocols are allowed''), [])) \<and>
   (GET env target = Some (r, fetched) \<and> fetched \<noteq> [] \<longrightarrow>
      (\<exists>t n u. target = Some t \<and> t \<noteq> [] \<and> normalizeImageUrl env t = Some n \<and>
         new_URL env n = Some u \<and> (protocol u = ''http:'' \<or> protocol u = ''https:'') \<and>
         fetched = [toString env u]))"
proof (intro conjI impI)
  assume "target = None \<or> target = Some []"
  then show "GET env target = Some (Inr (json_response 400 ''Missing url query parameter''), [])"
    by (rule GET_missing)
next
  assume "target = Some t \<and> t \<noteq> [] \<and> normalizeImageUrl env t = Some n \<and> new_URL env n = None"
  then show "GET env target = Some (Inr (json_response 400 ''Invalid URL supplied''), [])"
    using GET_invalid [of t env n] by simp
next
  assume "target = Some t \<and> t \<noteq> [] \<and> normalizeImageUrl env t = Some n \<and> new_URL env n = Some u \<and>
    protocol u \<noteq> ''http:'' \<and> protocol u \<noteq> ''https:''"
  then show "GET env target
        = Some (Inr (json_response 400 ''Only http and https protocols are allowed''), [])"
    using GET_protocol [of t env n u] by simp
next
  assume "GET env target = Some (r, fetched) \<and> fetched \<noteq> []"
  then show "\<exists>t n u. target = Some t \<and> t \<noteq> [] \<and> normalizeImageUrl env t = Some n \<and>
         new_URL env n = Some u \<and> (protocol u = ''http:'' \<or> protocol u = ''https:'') \<and>
         fetched = [toString env u]"
    using GET_fetched [of env target r fetched] by simp
qed

theorem proxy_validation_order_witness:
  "GET demo_platform None = Some (Inr (json_response 400 ''Missing url query parameter''), []) \<and>
   GET demo_platform (Some ''not a url'') = Some (Inr (json_response 400 ''Invalid URL supplied''), []) \<and>
   GET demo_platform (Some ''ftp://example.com/a.png'')
     = Some (Inr (json_response 400 ''Only http and https protocols are allowed''), [])"
proof -
  let ?ftp = "\<lparr>protocol = ''ftp:'', hostname = ''example.com'', pathname = ''/a.png'',
                searchParams = []\<rparr>"
  have j: "new_URL demo_platform ''not a url'' = None"
    by (simp add: demo_platform_def demo_new_URL_def)
  have f: "new_URL demo_platform ''ftp://example.com/a.png'' = Some ?ftp"
    by (simp add: demo_platform_def demo_new_URL_def)
  from proxy_validation_order [of None demo_platform]
  have 1: "GET demo_platform None = Some (Inr (json_response 400 ''Missing url query parameter''), [])"
    by simp
  from proxy_validation_order [of "Some ''not a url''" demo_platform "''not a url''" "''not a url''"]
    demo_normalize_junk j
  have 2: "GET demo_platform (Some ''not a url'')
             = Some (Inr (json_response 400 ''Invalid URL supplied''), [])"
    by simp
  from proxy_validation_order [of "Some ''ftp://example.com/a.png''" demo_platform
      "''ftp://example.com/a.png''" "''ftp://example.com/a.png''" ?ftp]
    demo_normalize_ftp f
  have 3: "GET demo_platform (Some ''ftp://example.com/a.png'')
     = Some (Inr (json_response 400 ''Only http and https protocols are allowed''), [])"
    by simp
  from 1 2 3 show ?thesis by (intro conjI)
qed

text \<open>
  Claim C7, as stated: when the upstream fetch of a validated request gives a non-success
  status or no body, the proxy answers with status 502. The proxy passes the status of
  the upstream on (\<open>upstreamResponse.status || 502\<close>): an upstream 404 is answered with
  404.
\<close>

theorem proxy_upstream_status_counterexample:
  "fetch demo_platform ''http://example.com/missing.png''
     = Inr \<lparr>ok = False, up_status = 404, up_body = Some [], content_type = Some ''text/html'',
            content_length = None\<rparr> \<and>
   GET demo_platform (Some ''http://example.com/missing.png'')
     = Some (Inr (json_response 404 ''Failed to fetch remote image''),
             [''http://example.com/missing.png'']) \<and>
   GET demo_platform (Some ''http://example.com/missing.png'')
     \<noteq> Some (Inr (json_response 502 ''Failed to fetch remote image''),
             [''http://example.com/missing.png''])"
  by (simp add: demo_GET_404 json_response_def) (simp add: demo_platform_def demo_fetch_def)

text \<open>
  Claim C7, amended. When the upstream fetch of a validated request gives a non-success
  status or no body, the proxy answers \<open>Failed to fetch remote image\<close> with the status of
  the upstream, and with 502 when that status is 0; when the platform refuses to build a
  JSON response with that status (outside 200..599, or 204, 205, 304), and when the fetch
  itself fails, the proxy answers 502 \<open>Unexpected proxy failure\<close>.
\<close>

theorem proxy_upstream_failure:
  assumes "t \<noteq> []" and "normalizeImageUrl env t = Some n" and "new_URL env n = Some u"
    and "protocol u = ''http:'' \<or> protocol u = ''https:''"
  shows "(fetch env (toString env u) = Inr up \<and> (\<not> ok up \<or> up_body up = None) \<longrightarrow>
           GET env (Some t) =
             Some (let st = (if up_status up = 0 then 502 else up_status up) in
                   if json_status_ok st
                   then Inr (json_response st ''Failed to fetch remote image'')
                   else Inr (json_response 502 ''Unexpected proxy failure''),
                   [toString env u])) \<and>
         (fetch env (toString env u) = Inl e \<longrightarrow>
           GET env (Some t) =
             Some (Inr (json_response 502 ''Unexpected proxy failure''), [toString env u]))"
  using GET_valid [OF assms] proxy_fetch_failed [of env u up] proxy_fetch_threw [of env u e]
  by simp

theorem proxy_upstream_failure_witness:
  "GET demo_platform (Some ''http://example.com/missing.png'')
     = Some (Inr (json_response 404 ''Failed to fetch remote image''),
             [''http://example.com/missing.png'']) \<and>
   GET demo_platform (Some ''http://unreachable.invalid/x.png'')
     = Some (Inr (json_response 502 ''Unexpected proxy failure''),
             [''http://unreachable.invalid/x.png''])"
proof -
  let ?u = "\<lparr>protocol = ''http:'', hostname = ''example.com'', pathname = ''/missing.png'',
              searchParams = []\<rparr>"
  let ?up = "\<lparr>ok = False, up_status = 404, up_body = Some [], content_type = Some ''text/html'',
             content_length = None\<rparr>"
  have p: "new_URL demo_platform ''http://example.com/missing.png'' = Some ?u"
    by (simp add: demo_platform_def demo_new_URL_def)
  have n: "normalizeImageUrl demo_platform ''http://example.com/missing.png''
             = Some ''http://example.com/missing.png''"
    by (subst normalizeImageUrl.simps)
       (simp add: p wrapped_image_url_def cdn_or_unchanged_def)
  have s: "toString demo_platform ?u = ''http://example.com/missing.png''"
    by (simp add: demo_platform_def demo_toString_def)
  have f: "fetch demo_platform (toString demo_platform ?u) = Inr ?up"
    by (simp add: demo_platform_def demo_fetch_def demo_toString_def)
  have pr: "protocol ?u = ''http:'' \<or> protocol ?u = ''https:''" by simp
  have ne: "''http://example.com/missing.png'' \<noteq> []" by simp
  from proxy_upstream_failure [OF ne n p pr, of ?up TypeError] f
  have "GET demo_platform (Some ''http://example.com/missing.png'')
     = Some (Inr (json_response 404 ''Failed to fetch remote image''),
             [''http://example.com/missing.png''])"
    by (simp add: s json_status_ok_def)
  then show ?thesis by (simp add: demo_GET_unreachable)
qed

text \<open>
  Claim C9. For a URL that parses and whose host is \<open>images.unsplash.com\<close>, the normalizer
  returns the serialization of that URL with the query parameters \<open>auto\<close>, \<open>fit\<close> and
  \<open>fm\<close> present: the parameters of the input are kept as they are, in their order, and
  followed by exactly those of \<open>auto=format\<close>, \<open>fit=crop\<close>, \<open>fm=jpg\<close> whose name the
  input did not carry.
\<close>

theorem cdn_params_added:
  assumes "new_URL env rawUrl = Some parsed" and "hostname parsed = ''images.unsplash.com''"
  shows "normalizeImageUrl env rawUrl =
           Some (toString env
             (parsed\<lparr>searchParams := searchParams parsed @ missing_defaults (searchParams parsed)\<rparr>))
       \<and> (\<forall>k\<in>{''auto'', ''fit'', ''fm''}.
             sp_has k (searchParams parsed @ missing_defaults (searchParams parsed)))
       \<and> (\<forall>k v. (k, v) \<in> set (missing_defaults (searchParams parsed)) \<longrightarrow>
             (k, v) \<in> set cdn_defaults \<and> \<not> sp_has k (searchParams parsed))
       \<and> (\<forall>k. sp_has k (searchParams parsed) \<longrightarrow>
             sp_get k (searchParams parsed @ missing_defaults (searchParams parsed))
               = sp_get k (searchParams parsed) \<and>
             sp_getAll k (searchParams parsed @ missing_defaults (searchParams parsed))
               = sp_getAll k (searchParams parsed))"
proof (intro conjI allI ballI impI)
  show "normalizeImageUrl env rawUrl =
           Some (toString env
             (parsed\<lparr>searchParams := searchParams parsed @ missing_defaults (searchParams parsed)\<rparr>))"
    by (subst normalizeImageUrl.simps)
       (simp add: assms not_wrapped_unsplash cdn_or_unchanged_def with_cdn_params_append)
next
  fix k :: string
  assume "k \<in> {''auto'', ''fit'', ''fm''}"
  then show "sp_has k (searchParams parsed @ missing_defaults (searchParams parsed))"
    by (rule sp_has_with_defaults)
next
  fix k v
  assume "(k, v) \<in> set (missing_defaults (searchParams parsed))"
  then show "(k, v) \<in> set cdn_defaults" and "\<not> sp_has k (searchParams parsed)"
    by (auto simp: missing_defaults_def)
next
  fix k
  assume "sp_has k (searchParams parsed)"
  then show "sp_get k (searchParams parsed @ missing_defaults (searchParams parsed))
               = sp_get k (searchParams parsed)"
    and "sp_getAll k (searchParams parsed @ missing_defaults (searchParams parsed))
               = sp_getAll k (searchParams parsed)"
    by (rule sp_get_kept, rule sp_getAll_kept)
qed

theorem cdn_params_added_witness:
  "new_URL demo_platform ''https://images.unsplash.com/photo-1?fit=max''
     = Some \<lparr>protocol = ''https:'', hostname = ''images.unsplash.com'', pathname = ''/photo-1'',
              searchParams = [(''fit'', ''max'')]\<rparr> \<and>
   missing_defaults [(''fit'', ''max'')] = [(''auto'', ''format''), (''fm'', ''jpg'')] \<and>
   normalizeImageUrl demo_platform ''https://images.unsplash.com/photo-1?fit=max''
     = Some ''https://images.unsplash.com/photo-1?fit=max&auto=format&fm=jpg''"
proof -
  let ?u = "\<lparr>protocol = ''https:'', hostname = ''images.unsplash.com'', pathname = ''/photo-1'',
              searchParams = [(''fit'', ''max'')]\<rparr>"
  have p: "new_URL demo_platform ''https://images.unsplash.com/photo-1?fit=max'' = Some ?u"
    by (simp add: demo_platform_def demo_new_URL_def)
  have h: "hostname ?u = ''images.unsplash.com''" by simp
  have m: "missing_defaults [(''fit'', ''max'')] = [(''auto'', ''format''), (''fm'', ''jpg'')]"
    by (simp add: missing_defaults_def cdn_defaults_def sp_has_def)
  from cdn_params_added [OF p h] p m show ?thesis
    by (simp add: demo_platform_def demo_toString_def)
qed

text \<open>
  Claim C10. The normalizer returns on every input string, although its recursion has no
  depth bound: it recurses only on the value of the \<open>imgurl\<close> parameter of a parsed
  wrapper URL, and the parser gives parameter values strictly shorter than the string
  they were parsed from, so the length of the argument decreases at every call.
\<close>

theorem normalizeImageUrl_terminates:
  assumes "\<forall>s u v. new_URL env s = Some u \<longrightarrow> sp_get ''imgurl'' (searchParams u) = Some v
             \<longrightarrow> length v < length s"
  shows "(\<exists>r. normalizeImageUrl env rawUrl = Some r) \<and>
         (\<forall>u v. wrapped_image_url u = Some v \<longrightarrow>
            str_includes (hostname u) ''google.'' \<and> str_includes (pathname u) ''/imgres'' \<and>
            sp_get ''imgurl'' (searchParams u) = Some v)"
proof
  show "\<exists>r. normalizeImageUrl env rawUrl = Some r"
  proof (induction rawUrl rule: length_induct)
    case (1 rawUrl)
    show ?case
    proof (cases "new_URL env rawUrl")
      case None
      then show ?thesis by (subst normalizeImageUrl.simps) simp
    next
      case (Some parsed)
      show ?thesis
      proof (cases "wrapped_image_url parsed")
        case None
        with Some show ?thesis by (subst normalizeImageUrl.simps) simp
      next
        case inner: (Some actualImageUrl)
        then have "sp_get ''imgurl'' (searchParams parsed) = Some actualImageUrl"
          by (auto simp: wrapped_image_url_def split: if_splits option.splits)
        with assms Some have "length actualImageUrl < length rawUrl" by blast
        with 1 obtain r where "normalizeImageUrl env actualImageUrl = Some r" by blast
        with Some inner show ?thesis by (subst normalizeImageUrl.simps) simp
      qed
    qed
  qed
next
  show "\<forall>u v. wrapped_image_url u = Some v \<longrightarrow>
            str_includes (hostname u) ''google.'' \<and> str_includes (pathname u) ''/imgres'' \<and>
            sp_get ''imgurl'' (searchParams u) = Some v"
    by (auto simp: wrapped_image_url_def split: if_splits option.splits)
qed

theorem normalizeImageUrl_terminates_witness:
  "normalizeImageUrl demo_platform
     ''https://www.google.com/imgres?imgurl=https://images.unsplash.com/photo-1?fit=max''
     = Some ''https://images.unsplash.com/photo-1?fit=max&auto=format&fm=jpg''"
  using normalizeImageUrl_terminates [OF demo_shorter,
      of "''https://www.google.com/imgres?imgurl=https://images.unsplash.com/photo-1?fit=max''"]
    demo_normalize_wrapper
  by (elim conjE)


end
